theory Spec2Isabelle
  imports Complex_Main "HOL-Library.AList"
begin

section \<open>Python values, exceptions and dictionaries\<close>

text \<open>
  The exceptions the modelled functions can raise.  A function that can raise returns
  \<open>error + 'a\<close>, with \<open>Inl\<close> for the exception.
\<close>

datatype error =
    FileNotFoundError | ParseError | AttributeError | TypeError | ValueError
  | OverflowError | KeyError | ZeroDivisionError | OSError

text \<open>
  The values stored in the dictionaries the parsers build: the text of an XML element is a
  \<open>str\<close> or \<open>None\<close>, a converted field is an \<open>int\<close>.
\<close>

datatype pyval = PNone | PStr string | PInt int

text \<open>
  A \<open>dict\<close> is an association list in insertion order.  \<open>d[k] = v\<close> is
  \<open>AList.update k v d\<close>: an existing key keeps its position, a new key goes to
  the end.  \<open>d[k]\<close> raises \<open>KeyError\<close> on a missing key.
\<close>

type_synonym ('k, 'v) dict = "('k \<times> 'v) list"

definition getitem :: "('k, 'v) dict \<Rightarrow> 'k \<Rightarrow> error + 'v" where
  "getitem d k = (case map_of d k of None \<Rightarrow> Inl KeyError | Some v \<Rightarrow> Inr v)"

definition contains :: "('k, 'v) dict \<Rightarrow> 'k \<Rightarrow> bool" where
  "contains d k = (map_of d k \<noteq> None)"

section \<open>Paths (\<open>posixpath\<close>)\<close>

text \<open>\<open>s.rfind(c)\<close>: the last index of \<open>c\<close> in \<open>s\<close>, or \<open>-1\<close>.\<close>

fun rfind_from :: "char \<Rightarrow> string \<Rightarrow> int \<Rightarrow> int \<Rightarrow> int" where
  "rfind_from c [] i found = found"
| "rfind_from c (x # xs) i found = rfind_from c xs (i + 1) (if x = c then i else found)"

definition rfind :: "char \<Rightarrow> string \<Rightarrow> int" where
  "rfind c s = rfind_from c s 0 (- 1)"

text \<open>\<open>os.path.basename(p)\<close>: \<open>p[p.rfind('/') + 1:]\<close>.\<close>

definition basename :: "string \<Rightarrow> string" where
  "basename p = drop (nat (rfind (CHR ''/'') p + 1)) p"

text \<open>
  \<open>os.path.splitext(p)\<close>: the extension starts at the last dot of the last path
  component, unless that component has only dots before it (a leading dot is part of the
  name).
\<close>

definition splitext :: "string \<Rightarrow> string \<times> string" where
  "splitext p =
     (let sepIndex = rfind (CHR ''/'') p;
          dotIndex = rfind (CHR ''.'') p
      in if dotIndex > sepIndex \<and>
            list_ex (\<lambda>c. c \<noteq> CHR ''.'')
              (take (nat (dotIndex - (sepIndex + 1))) (drop (nat (sepIndex + 1)) p))
         then (take (nat dotIndex) p, drop (nat dotIndex) p)
         else (p, []))"

text \<open>\<open>os.path.join(a, b)\<close>.\<close>

definition join :: "string \<Rightarrow> string \<Rightarrow> string" where
  "join a b =
     (if b \<noteq> [] \<and> hd b = CHR ''/'' then b
      else if a = [] \<or> last a = CHR ''/'' then a @ b
      else a @ ''/'' @ b)"

section \<open>Folder Matcher\<close>

text \<open>
  \<open>check_match\<close> of \<open>analysis.py\<close>, on the two directory listings
  \<open>name_1 = os.listdir(path_1)\<close> and \<open>name_2 = os.listdir(path_2)\<close>.
  The first loop collects the stems of \<open>name_1\<close> in a set; the second returns
  \<open>False\<close> at the first name of \<open>name_2\<close> whose stem is not in it.
\<close>

definition stem :: "string \<Rightarrow> string" where
  "stem name = fst (splitext name)"

fun all_in :: "string list \<Rightarrow> string set \<Rightarrow> bool" where
  "all_in [] set_name = True"
| "all_in (name # rest) set_name =
     (if stem name \<notin> set_name then False else all_in rest set_name)"

definition check_match :: "string list \<Rightarrow> string list \<Rightarrow> bool" where
  "check_match name_1 name_2 =
     (if length name_1 \<noteq> length name_2 then False
      else all_in name_2 (set (map stem name_1)))"

text \<open>
  The Folder Matcher as the specification words it: equal entry counts and identical
  sets of extension-stripped names.
\<close>

definition check_match_spec :: "string list \<Rightarrow> string list \<Rightarrow> bool" where
  "check_match_spec name_1 name_2 =
     (length name_1 = length name_2 \<and> set (map stem name_1) = set (map stem name_2))"

section \<open>Numeric conversion: \<open>int(float(text))\<close>\<close>

text \<open>
  A model of CPython's \<open>float(str)\<close> on 8-bit text followed by \<open>int(float)\<close>.
  A binary64 value is \<open>Nan\<close>, an infinity, or \<open>Fin neg m s\<close>, standing for
  \<open>(-1)^neg * m * 2^s\<close>.  The decimal value of the text is rounded to the nearest
  binary64 value, ties to even, as CPython's correctly rounded conversion does; a value
  that rounds to \<open>2^1024\<close> or beyond becomes an infinity.
\<close>

datatype pyfloat = Nan | Inf bool | Fin bool int int

definition is_space :: "char \<Rightarrow> bool" where
  "is_space c = (c \<in> set [CHR 0x09, CHR 0x0A, CHR 0x0B, CHR 0x0C, CHR 0x0D, CHR 0x20,
                            CHR 0x85, CHR 0xA0])"

definition is_digit :: "char \<Rightarrow> bool" where
  "is_digit c = (c \<in> set ''0123456789'')"

definition digit_val :: "char \<Rightarrow> int" where
  "digit_val c = of_char c - 48"

definition digits_val :: "string \<Rightarrow> int" where
  "digits_val ds = foldl (\<lambda>a c. 10 * a + digit_val c) 0 ds"

definition lower :: "char \<Rightarrow> char" where
  "lower c = (if c \<in> set ''ABCDEFGHIJKLMNOPQRSTUVWXYZ'' then char_of (of_char c + (32::nat)) else c)"

text \<open>
  An underscore is accepted only between two digits; the accepted underscores are removed
  before the number is read.  \<open>None\<close> is a misplaced underscore.
\<close>

fun strip_underscores :: "char \<Rightarrow> string \<Rightarrow> string option" where
  "strip_underscores prev [] = (if prev = CHR ''_'' then None else Some [])"
| "strip_underscores prev (c # cs) =
     (if c = CHR ''_'' then
        (if \<not> is_digit prev then None else strip_underscores c cs)
      else if prev = CHR ''_'' \<and> \<not> is_digit c then None
      else map_option ((#) c) (strip_underscores c cs))"

definition strip_space :: "string \<Rightarrow> string" where
  "strip_space s = rev (dropWhile is_space (rev (dropWhile is_space s)))"

text \<open>An optional sign: whether it is \<open>-\<close>, and the rest.\<close>

definition split_sign :: "string \<Rightarrow> bool \<times> string" where
  "split_sign s =
     (case s of
        [] \<Rightarrow> (False, [])
      | c # cs \<Rightarrow> if c = CHR ''-'' then (True, cs) else if c = CHR ''+'' then (False, cs)
                 else (False, s))"

text \<open>
  \<open>floor_log2 a b\<close> is \<open>\<lfloor>log\<^sub>2 (a / b)\<rfloor>\<close> for positive \<open>a\<close>, \<open>b\<close>:
  \<open>bit_length\<close> is the number of binary digits.
\<close>

function bit_length :: "int \<Rightarrow> int" where
  "bit_length n = (if n \<le> 0 then 0 else 1 + bit_length (n div 2))"
  by pat_completeness auto
termination
  by (relation "measure nat") auto

declare bit_length.simps [simp del]

text \<open>\<open>scale2 a s\<close> is \<open>a * 2^s\<close> as a fraction \<open>(numerator, denominator)\<close>.\<close>

definition scale2 :: "int \<Rightarrow> int \<Rightarrow> int \<times> int" where
  "scale2 a s = (if 0 \<le> s then (a * 2 ^ nat s, 1) else (a, 2 ^ nat (- s)))"

definition floor_log2 :: "int \<Rightarrow> int \<Rightarrow> int" where
  "floor_log2 a b =
     (let d = bit_length a - bit_length b;
          (p, q) = scale2 1 d
      in if p * b \<le> q * a then d else d - 1)"

text \<open>\<open>round_half_even n d\<close>: the integer nearest to \<open>n / d\<close>, ties to even.\<close>

definition round_half_even :: "int \<Rightarrow> int \<Rightarrow> int" where
  "round_half_even n d =
     (let q = n div d; r = n mod d
      in if 2 * r < d then q
         else if d < 2 * r then q + 1
         else if even q then q else q + 1)"

text \<open>
  \<open>to_double neg a b\<close>: the binary64 value nearest to \<open>(-1)^neg * a / b\<close>
  (\<open>b > 0\<close>).  The exponent of the unit in the last place is \<open>e - 52\<close>, with
  \<open>e\<close> not below \<open>-1022\<close> (subnormal values).
\<close>

definition to_double :: "bool \<Rightarrow> int \<Rightarrow> int \<Rightarrow> pyfloat" where
  "to_double neg a b =
     (if a = 0 then Fin neg 0 0
      else
        let e = max (floor_log2 a b) (- 1022);
            s = e - 52;
            (p, q) = scale2 1 s;
            m = round_half_even (a * q) (b * p);
            (v, w) = scale2 m (s - 1024)
        in if w \<le> v then Inf neg else Fin neg m s)"

text \<open>
  The number grammar: digits, an optional point and digits (at least one digit in all),
  an optional exponent \<open>e\<close> or \<open>E\<close> with an optional sign and at least one digit.
  \<open>None\<close> when the text is not such a number.
\<close>

definition parse_exponent :: "string \<Rightarrow> int option" where
  "parse_exponent s =
     (case s of
        [] \<Rightarrow> Some 0
      | c # cs \<Rightarrow>
          if c = CHR ''e'' \<or> c = CHR ''E'' then
            (let (eneg, ds) = split_sign cs
             in if ds \<noteq> [] \<and> list_all is_digit ds
                then Some (if eneg then - digits_val ds else digits_val ds)
                else None)
          else None)"

definition parse_decimal :: "bool \<Rightarrow> string \<Rightarrow> pyfloat option" where
  "parse_decimal neg s =
     (let ip = takeWhile is_digit s;
          s2 = dropWhile is_digit s;
          fp = (case s2 of [] \<Rightarrow> [] | c # cs \<Rightarrow> if c = CHR ''.'' then takeWhile is_digit cs else []);
          s3 = (case s2 of [] \<Rightarrow> [] | c # cs \<Rightarrow> if c = CHR ''.'' then dropWhile is_digit cs else s2)
      in if ip = [] \<and> fp = [] then None
         else case parse_exponent s3 of
                None \<Rightarrow> None
              | Some ex \<Rightarrow>
                  (let k = ex - int (length fp);
                       n = digits_val (ip @ fp)
                   in Some (if 0 \<le> k then to_double neg (n * 10 ^ nat k) 1
                            else to_double neg n (10 ^ nat (- k)))))"

definition parse_inf_or_nan :: "bool \<Rightarrow> string \<Rightarrow> pyfloat option" where
  "parse_inf_or_nan neg s =
     (let l = map lower s
      in if l = ''inf'' \<or> l = ''infinity'' then Some (Inf neg)
         else if l = ''nan'' then Some Nan
         else None)"

text \<open>\<open>float(text)\<close>; \<open>float(None)\<close> raises \<open>TypeError\<close>.\<close>

definition py_float :: "string option \<Rightarrow> error + pyfloat" where
  "py_float t =
     (case t of
        None \<Rightarrow> Inl TypeError
      | Some s \<Rightarrow>
          (case strip_underscores (CHR 0x00) s of
             None \<Rightarrow> Inl ValueError
           | Some s1 \<Rightarrow>
               (let (neg, body) = split_sign (strip_space s1)
                in case parse_decimal neg body of
                     Some x \<Rightarrow> Inr x
                   | None \<Rightarrow>
                       (case parse_inf_or_nan neg body of
                          Some x \<Rightarrow> Inr x
                        | None \<Rightarrow> Inl ValueError))))"

text \<open>\<open>int(x)\<close> of a float: truncation toward zero.\<close>

definition py_int :: "pyfloat \<Rightarrow> error + int" where
  "py_int x =
     (case x of
        Nan \<Rightarrow> Inl ValueError
      | Inf neg \<Rightarrow> Inl OverflowError
      | Fin neg m s \<Rightarrow>
          (let (p, q) = scale2 m s; t = p div q
           in Inr (if neg then - t else t)))"

definition int_float :: "string option \<Rightarrow> error + int" where
  "int_float t = (case py_float t of Inl e \<Rightarrow> Inl e | Inr x \<Rightarrow> py_int x)"

section \<open>XML documents and the file system\<close>

text \<open>
  An element of an \<open>xml.etree.ElementTree\<close> document: its tag, its text
  (\<open>None\<close> for an element without text) and its child elements in document order.
\<close>

datatype element = Element (tag: string) (etext: "string option") (children: "element list")

text \<open>\<open>e.find(t)\<close>: the first child with tag \<open>t\<close>, or \<open>None\<close>.\<close>

definition find_child :: "string \<Rightarrow> element \<Rightarrow> element option" where
  "find_child t e = List.find (\<lambda>c. tag c = t) (children e)"

text \<open>\<open>e.findall(t)\<close>: the children with tag \<open>t\<close>, in document order.\<close>

definition findall :: "string \<Rightarrow> element \<Rightarrow> element list" where
  "findall t e = filter (\<lambda>c. tag c = t) (children e)"

definition text_val :: "string option \<Rightarrow> pyval" where
  "text_val t = (case t of None \<Rightarrow> PNone | Some s \<Rightarrow> PStr s)"

text \<open>
  What the functions read from and ask of the file system, as the outcome of each call:
  \<open>listdir\<close> is \<open>os.listdir\<close>; \<open>etree p\<close> is the root element that
  \<open>ET.ElementTree(file=p)\<close> parses, or the exception it raises
  (\<open>FileNotFoundError\<close>, \<open>ParseError\<close>); \<open>read_text p\<close> is the content of
  the text file \<open>p\<close>, or the exception that opening or reading it raises;
  \<open>isdir\<close> is \<open>os.path.isdir\<close>; \<open>mkdir p\<close> is the exception, if any, that
  \<open>os.mkdir(p)\<close> raises, and \<open>open_w p\<close> the exception, if any, that opening
  \<open>p\<close> with \<open>open(p, 'w')\<close> and writing to it raises.  For the worker pool: \<open>cpu_count\<close> is what
  \<open>multiprocessing.cpu_count()\<close> returns, and \<open>first_failure n\<close> is, when
  \<open>n\<close> chunks of a \<open>pool.map\<close> fail, the position among them of the chunk
  whose exception reaches the parent process first.
\<close>

record env =
  listdir :: "string \<Rightarrow> error + string list"
  etree :: "string \<Rightarrow> error + element"
  read_text :: "string \<Rightarrow> error + string"
  isdir :: "string \<Rightarrow> bool"
  mkdir :: "string \<Rightarrow> error option"
  open_w :: "string \<Rightarrow> error option"
  cpu_count :: nat
  first_failure :: "nat \<Rightarrow> nat"

text \<open>Sequencing of calls that can raise: the first exception ends the computation.\<close>

definition bind_err :: "error + 'a \<Rightarrow> ('a \<Rightarrow> error + 'b) \<Rightarrow> error + 'b" where
  "bind_err m f = (case m of Inl e \<Rightarrow> Inl e | Inr x \<Rightarrow> f x)"

section \<open>Annotation Parser\<close>

text \<open>
  The dictionary \<open>res\<close> that \<open>parse_anno\<close> returns.  \<open>annoname\<close> is
  \<open>None\<close> when the key is absent (the parser of \<open>parser.py\<close> does not set it);
  \<open>size_dict\<close> is \<open>res['size']\<close>.
\<close>

record anno =
  annoname :: "string option"
  filename :: pyval
  size_dict :: "(string, pyval) dict"
  object :: "(string, pyval) dict list"

text \<open>
  \<open>for item in elem: d[item.tag] = int(float(item.text))\<close>, the loop of
  \<open>analysis.py\<close> over the children of \<open>size\<close> and of \<open>bndbox\<close>.
\<close>

fun convert_items :: "(string, pyval) dict \<Rightarrow> element list \<Rightarrow> error + (string, pyval) dict" where
  "convert_items d [] = Inr d"
| "convert_items d (item # rest) =
     bind_err (int_float (etext item))
       (\<lambda>v. convert_items (AList.update (tag item) (PInt v) d) rest)"

text \<open>The body of the loop over the \<open>object\<close> elements in \<open>analysis.py\<close>.\<close>

definition parse_object :: "element \<Rightarrow> error + (string, pyval) dict" where
  "parse_object obj =
     (case find_child ''name'' obj of
        None \<Rightarrow> Inl AttributeError
      | Some n \<Rightarrow>
          (case find_child ''bndbox'' obj of
             None \<Rightarrow> Inl TypeError
           | Some bbox \<Rightarrow> convert_items [(''name'', text_val (etext n))] (children bbox)))"

fun parse_objects :: "element list \<Rightarrow> error + (string, pyval) dict list" where
  "parse_objects [] = Inr []"
| "parse_objects (obj # objs) =
     bind_err (parse_object obj)
       (\<lambda>dict_obj. bind_err (parse_objects objs) (\<lambda>rest. Inr (dict_obj # rest)))"

text \<open>\<open>parse_anno\<close> of \<open>analysis.py\<close>.\<close>

definition parse_anno :: "env \<Rightarrow> string \<Rightarrow> error + anno" where
  "parse_anno fs path_anno =
     bind_err (etree fs path_anno) (\<lambda>tree.
       case find_child ''filename'' tree of
         None \<Rightarrow> Inl AttributeError
       | Some fn \<Rightarrow>
           (case find_child ''size'' tree of
              None \<Rightarrow> Inl TypeError
            | Some size_el \<Rightarrow>
                bind_err (convert_items [] (children size_el)) (\<lambda>dict_size.
                bind_err (parse_objects (findall ''object'' tree)) (\<lambda>objs.
                  Inr \<lparr>annoname = Some (basename path_anno),
                       filename = text_val (etext fn),
                       size_dict = dict_size,
                       object = objs\<rparr>))))"

text \<open>
  The parser of \<open>parser.py\<close>: the same traversal, with
  \<open>d[item.tag] = item.text\<close> in both loops and no \<open>annoname\<close>.
\<close>

fun raw_items :: "(string, pyval) dict \<Rightarrow> element list \<Rightarrow> (string, pyval) dict" where
  "raw_items d [] = d"
| "raw_items d (item # rest) = raw_items (AList.update (tag item) (text_val (etext item)) d) rest"

definition parser_parse_object :: "element \<Rightarrow> error + (string, pyval) dict" where
  "parser_parse_object obj =
     (case find_child ''name'' obj of
        None \<Rightarrow> Inl AttributeError
      | Some n \<Rightarrow>
          (case find_child ''bndbox'' obj of
             None \<Rightarrow> Inl TypeError
           | Some bbox \<Rightarrow> Inr (raw_items [(''name'', text_val (etext n))] (children bbox))))"

fun parser_parse_objects :: "element list \<Rightarrow> error + (string, pyval) dict list" where
  "parser_parse_objects [] = Inr []"
| "parser_parse_objects (obj # objs) =
     bind_err (parser_parse_object obj)
       (\<lambda>dict_obj. bind_err (parser_parse_objects objs) (\<lambda>rest. Inr (dict_obj # rest)))"

definition parser_parse_anno :: "env \<Rightarrow> string \<Rightarrow> error + anno" where
  "parser_parse_anno fs path_anno =
     bind_err (etree fs path_anno) (\<lambda>tree.
       case find_child ''filename'' tree of
         None \<Rightarrow> Inl AttributeError
       | Some fn \<Rightarrow>
           (case find_child ''size'' tree of
              None \<Rightarrow> Inl TypeError
            | Some size_el \<Rightarrow>
                bind_err (parser_parse_objects (findall ''object'' tree)) (\<lambda>objs.
                  Inr \<lparr>annoname = None,
                       filename = text_val (etext fn),
                       size_dict = raw_items [] (children size_el),
                       object = objs\<rparr>)))"

section \<open>Batch Parser\<close>

text \<open>
  \<open>Pool(cpu_count()).map(f, xs)\<close>.  The pool cuts \<open>xs\<close> into chunks of
  \<open>chunksize\<close> items (the length divided by four times the number of workers,
  rounded up).  A worker applies \<open>f\<close> to the items of a chunk in order and stops at
  the first exception (\<open>map_err\<close>).  When no chunk fails, \<open>map\<close> returns the
  results in the order of \<open>xs\<close>; otherwise it raises the exception of the failing
  chunk that reports first, which is for the scheduling to decide
  (\<open>first_failure\<close>).  A pool of no worker raises \<open>ValueError\<close>.
\<close>

fun map_err :: "('a \<Rightarrow> error + 'b) \<Rightarrow> 'a list \<Rightarrow> error + 'b list" where
  "map_err f [] = Inr []"
| "map_err f (x # xs) = bind_err (f x) (\<lambda>y. bind_err (map_err f xs) (\<lambda>ys. Inr (y # ys)))"

definition chunksize :: "nat \<Rightarrow> nat \<Rightarrow> nat" where
  "chunksize n procs =
     (if n mod (procs * 4) \<noteq> 0 then n div (procs * 4) + 1 else n div (procs * 4))"

function chunks :: "nat \<Rightarrow> 'a list \<Rightarrow> 'a list list" where
  "chunks k xs = (if k = 0 \<or> xs = [] then [] else take k xs # chunks k (drop k xs))"
  by pat_completeness auto
termination
  by (relation "measure (\<lambda>(k, xs). length xs)") auto

declare chunks.simps [simp del]

text \<open>The exceptions of the failing chunks and the results of the others, in chunk order.\<close>

fun collect :: "(error + 'a list) list \<Rightarrow> error list \<times> 'a list" where
  "collect [] = ([], [])"
| "collect (r # rs) =
     (case collect rs of
        (errs, ys) \<Rightarrow> (case r of Inl e \<Rightarrow> (e # errs, ys) | Inr zs \<Rightarrow> (errs, zs @ ys)))"

definition pool_map :: "env \<Rightarrow> ('a \<Rightarrow> error + 'b) \<Rightarrow> 'a list \<Rightarrow> error + 'b list" where
  "pool_map fs f xs =
     (if cpu_count fs = 0 then Inl ValueError
      else case collect (map (map_err f) (chunks (chunksize (length xs) (cpu_count fs)) xs)) of
             ([], ys) \<Rightarrow> Inr ys
           | (e # errs, ys) \<Rightarrow>
               Inl (let i = first_failure fs (length (e # errs))
                    in if i < length (e # errs) then (e # errs) ! i else e))"

text \<open>\<open>parse_annos\<close> of \<open>analysis.py\<close>.\<close>

definition parse_annos :: "env \<Rightarrow> string \<Rightarrow> error + anno list" where
  "parse_annos fs path_anno_folder =
     bind_err (listdir fs path_anno_folder) (\<lambda>names.
       pool_map fs (parse_anno fs) (map (join path_anno_folder) names))"

section \<open>Label Generator\<close>

text \<open>
  Reading the names file: \<open>open(path_names)\<close> is in text mode with universal
  newlines, so \<open>\r\n\<close> and \<open>\r\<close> are read as \<open>\n\<close>; iterating over the
  file gives its lines, each with its terminating \<open>\n\<close> (the last line may lack
  one).
\<close>

fun universal_newlines :: "string \<Rightarrow> string" where
  "universal_newlines [] = []"
| "universal_newlines [c] = (if c = CHR 0x0D then [CHR 0x0A] else [c])"
| "universal_newlines (c # d # cs) =
     (if c = CHR 0x0D \<and> d = CHR 0x0A then CHR 0x0A # universal_newlines cs
      else if c = CHR 0x0D then CHR 0x0A # universal_newlines (d # cs)
      else c # universal_newlines (d # cs))"

fun file_lines :: "string \<Rightarrow> string list" where
  "file_lines [] = []"
| "file_lines (c # cs) =
     (if c = CHR 0x0A then [c] # file_lines cs
      else (case file_lines cs of [] \<Rightarrow> [[c]] | l # ls \<Rightarrow> (c # l) # ls))"

text \<open>\<open>l.strip('\n')\<close>: leading and trailing newline characters removed.\<close>

definition strip_nl :: "string \<Rightarrow> string" where
  "strip_nl l = rev (dropWhile (\<lambda>c. c = CHR 0x0A) (rev (dropWhile (\<lambda>c. c = CHR 0x0A) l)))"

text \<open>
  The loop that builds \<open>name2label\<close>, with its running counter \<open>label\<close>.  The keys
  are Python values, as the loop over the boxes looks \<open>bbox['name']\<close> up in it.
\<close>

fun build_name2label :: "(pyval, int) dict \<Rightarrow> int \<Rightarrow> string list \<Rightarrow> (pyval, int) dict" where
  "build_name2label name2label label [] = name2label"
| "build_name2label name2label label (l # ls) =
     build_name2label (AList.update (PStr (strip_nl l)) label name2label) (label + 1) ls"

text \<open>
  Python's \<open>+\<close>, \<open>-\<close>, \<open>2 * w\<close> and \<open>/\<close> on the values a dictionary can
  hold.  \<open>/\<close> is true division of integers: it raises \<open>ZeroDivisionError\<close> on a
  zero divisor and \<open>OverflowError\<close> when the quotient, rounded to the nearest
  binary64 value, is beyond the binary64 range (\<open>overflows\<close>).  Its result is
  modelled as the exact rational quotient: the rounding of a quotient within the range is
  not part of the model.
\<close>

definition overflows :: "int \<Rightarrow> int \<Rightarrow> bool" where
  "overflows x y = (case to_double False \<bar>x\<bar> \<bar>y\<bar> of Inf neg \<Rightarrow> True | _ \<Rightarrow> False)"

definition py_add :: "pyval \<Rightarrow> pyval \<Rightarrow> error + pyval" where
  "py_add a b =
     (case (a, b) of
        (PInt x, PInt y) \<Rightarrow> Inr (PInt (x + y))
      | (PStr x, PStr y) \<Rightarrow> Inr (PStr (x @ y))
      | _ \<Rightarrow> Inl TypeError)"

definition py_sub :: "pyval \<Rightarrow> pyval \<Rightarrow> error + pyval" where
  "py_sub a b =
     (case (a, b) of
        (PInt x, PInt y) \<Rightarrow> Inr (PInt (x - y))
      | _ \<Rightarrow> Inl TypeError)"

definition py_twice :: "pyval \<Rightarrow> error + pyval" where
  "py_twice w =
     (case w of
        PInt x \<Rightarrow> Inr (PInt (2 * x))
      | PStr x \<Rightarrow> Inr (PStr (x @ x))
      | PNone \<Rightarrow> Inl TypeError)"

definition py_truediv :: "pyval \<Rightarrow> pyval \<Rightarrow> error + rat" where
  "py_truediv a b =
     (case (a, b) of
        (PInt x, PInt y) \<Rightarrow>
          if y = 0 then Inl ZeroDivisionError
          else if overflows x y then Inl OverflowError
          else Inr (of_int x / of_int y)
      | _ \<Rightarrow> Inl TypeError)"

text \<open>
  One line of the label file: \<open>' '.join(map(str, [label, x_center, y_center, width,
  height]))\<close>, kept as its five values.
\<close>

record row =
  label :: int
  x_center :: rat
  y_center :: rat
  width :: rat
  height :: rat

text \<open>The body of the loop over \<open>anno['object']\<close> for a box that is not skipped.\<close>

definition gen_row :: "(pyval, int) dict \<Rightarrow> pyval \<Rightarrow> pyval \<Rightarrow> (string, pyval) dict \<Rightarrow> error + row" where
  "gen_row name2label W H bbox =
     bind_err (getitem bbox ''name'') (\<lambda>nm.
     bind_err (getitem name2label nm) (\<lambda>lab.
     bind_err (getitem bbox ''xmin'') (\<lambda>xmin.
     bind_err (getitem bbox ''xmax'') (\<lambda>xmax.
     bind_err (py_add xmin xmax) (\<lambda>sx.
     bind_err (py_twice W) (\<lambda>w2.
     bind_err (py_truediv sx w2) (\<lambda>xc.
     bind_err (getitem bbox ''ymin'') (\<lambda>ymin.
     bind_err (getitem bbox ''ymax'') (\<lambda>ymax.
     bind_err (py_add ymin ymax) (\<lambda>sy.
     bind_err (py_twice H) (\<lambda>h2.
     bind_err (py_truediv sy h2) (\<lambda>yc.
     bind_err (getitem bbox ''xmax'') (\<lambda>xmax'.
     bind_err (getitem bbox ''xmin'') (\<lambda>xmin'.
     bind_err (py_sub xmax' xmin') (\<lambda>dx.
     bind_err (py_truediv dx W) (\<lambda>wd.
     bind_err (getitem bbox ''ymax'') (\<lambda>ymax'.
     bind_err (getitem bbox ''ymin'') (\<lambda>ymin'.
     bind_err (py_sub ymax' ymin') (\<lambda>dy.
     bind_err (py_truediv dy H) (\<lambda>ht.
       Inr \<lparr>label = lab, x_center = xc, y_center = yc, width = wd, height = ht\<rparr>
     ))))))))))))))))))))"

fun gen_rows :: "(pyval, int) dict \<Rightarrow> pyval \<Rightarrow> pyval \<Rightarrow> (string, pyval) dict list \<Rightarrow> error + row list" where
  "gen_rows name2label W H [] = Inr []"
| "gen_rows name2label W H (bbox # rest) =
     bind_err (getitem bbox ''name'') (\<lambda>nm.
       if \<not> contains name2label nm then gen_rows name2label W H rest
       else bind_err (gen_row name2label W H bbox) (\<lambda>r.
            bind_err (gen_rows name2label W H rest) (\<lambda>rs. Inr (r # rs))))"

text \<open>The mapping built from the content \<open>f\<close> of the names file.\<close>

definition load_name2label :: "string \<Rightarrow> (pyval, int) dict" where
  "load_name2label f = build_name2label [] 0 (file_lines (universal_newlines f))"

text \<open>
  \<open>gen_label\<close> of \<open>analysis.py\<close>.  It returns the path of the file it writes and
  the lines it writes to it, in order.
\<close>

definition gen_label :: "env \<Rightarrow> string \<Rightarrow> string \<Rightarrow> string \<Rightarrow> error + string \<times> row list" where
  "gen_label fs path_anno path_names path_out =
     bind_err (parse_anno fs path_anno) (\<lambda>a.
     bind_err (read_text fs path_names) (\<lambda>f.
       let name2label = load_name2label f
       in bind_err (getitem (size_dict a) ''width'') (\<lambda>W.
          bind_err (getitem (size_dict a) ''height'') (\<lambda>H.
          bind_err (gen_rows name2label W H (object a)) (\<lambda>rows.
          bind_err (if \<not> isdir fs path_out
                    then (case mkdir fs path_out of Some e \<Rightarrow> Inl e | None \<Rightarrow> Inr ())
                    else Inr ()) (\<lambda>_.
            let file_name = fst (splitext (basename path_anno));
                path_out_file = join path_out (file_name @ ''.txt'')
            in case open_w fs path_out_file of
                 Some e \<Rightarrow> Inl e
               | None \<Rightarrow> Inr (path_out_file, rows)))))))"

section \<open>Distribution Analyzer\<close>

text \<open>\<open>d.setdefault(k, v)\<close>: the dictionary afterwards and the value returned.\<close>

definition setdefault :: "'k \<Rightarrow> 'v \<Rightarrow> ('k, 'v) dict \<Rightarrow> ('k, 'v) dict \<times> 'v" where
  "setdefault k v d = (case map_of d k of None \<Rightarrow> (d @ [(k, v)], v) | Some u \<Rightarrow> (d, u))"

text \<open>The two statements of the inner loop of \<open>distribution\<close>, for one box.\<close>

definition count_obj :: "(pyval, int) dict \<Rightarrow> (string, pyval) dict \<Rightarrow> error + (pyval, int) dict" where
  "count_obj d obj =
     bind_err (getitem obj ''name'') (\<lambda>nm.
       let (d1, c) = setdefault nm 0 d;
           d2 = AList.update nm (c + 1) d1
       in bind_err (getitem d2 (PStr ''N'')) (\<lambda>n.
            Inr (AList.update (PStr ''N'') (n + 1) d2)))"

fun count_objs :: "(pyval, int) dict \<Rightarrow> (string, pyval) dict list \<Rightarrow> error + (pyval, int) dict" where
  "count_objs d [] = Inr d"
| "count_objs d (obj # objs) = bind_err (count_obj d obj) (\<lambda>d'. count_objs d' objs)"

fun count_annos :: "(pyval, int) dict \<Rightarrow> anno list \<Rightarrow> error + (pyval, int) dict" where
  "count_annos d [] = Inr d"
| "count_annos d (a # annos) = bind_err (count_objs d (object a)) (\<lambda>d'. count_annos d' annos)"

text \<open>
  The report loop of \<open>verbose\<close> mode: what it prints is not modelled, the exception of
  \<open>100 * d[name] / d['N']\<close> is.
\<close>

fun report :: "(pyval, int) dict \<Rightarrow> pyval list \<Rightarrow> error + unit" where
  "report d [] = Inr ()"
| "report d (name # names) =
     bind_err (getitem d name) (\<lambda>c.
     bind_err (getitem d (PStr ''N'')) (\<lambda>n.
       if n = 0 then Inl ZeroDivisionError else report d names))"

definition distribution :: "env \<Rightarrow> string \<Rightarrow> bool \<Rightarrow> error + (pyval, int) dict" where
  "distribution fs path_anno_folder verbose =
     bind_err (parse_annos fs path_anno_folder) (\<lambda>annos.
     bind_err (count_annos [(PStr ''N'', 0)] annos) (\<lambda>d.
     bind_err (if verbose then report d (map fst d) else Inr ()) (\<lambda>_. Inr d)))"

section \<open>Notions the properties are stated with\<close>

text \<open>
  A box is retained by the loop of \<open>gen_label\<close> when its name is a key of
  \<open>name2label\<close>.
\<close>

definition retained :: "(pyval, int) dict \<Rightarrow> (string, pyval) dict \<Rightarrow> bool" where
  "retained name2label bbox =
     (case map_of bbox ''name'' of None \<Rightarrow> False | Some nm \<Rightarrow> contains name2label nm)"

text \<open>The four integer coordinates of a parsed box, when it has them.\<close>

definition box_coords :: "(string, pyval) dict \<Rightarrow> (int \<times> int \<times> int \<times> int) option" where
  "box_coords bbox =
     (case (map_of bbox ''xmin'', map_of bbox ''ymin'', map_of bbox ''xmax'', map_of bbox ''ymax'') of
        (Some (PInt xmin), Some (PInt ymin), Some (PInt xmax), Some (PInt ymax)) \<Rightarrow>
          Some (xmin, ymin, xmax, ymax)
      | _ \<Rightarrow> None)"

text \<open>
  The line the specification gives for a box, for an image of width \<open>w\<close> and height
  \<open>h\<close>: the label index of the name, then the four normalized values.
\<close>

definition spec_line :: "(pyval, int) dict \<Rightarrow> int \<Rightarrow> int \<Rightarrow> (string, pyval) dict \<Rightarrow> row \<Rightarrow> bool" where
  "spec_line name2label w h bbox r =
     (case (map_of bbox ''name'', box_coords bbox) of
        (Some nm, Some (xmin, ymin, xmax, ymax)) \<Rightarrow>
          w \<noteq> 0 \<and> h \<noteq> 0 \<and>
          map_of name2label nm = Some (label r) \<and>
          x_center r = of_int (xmin + xmax) / of_int (2 * w) \<and>
          y_center r = of_int (ymin + ymax) / of_int (2 * h) \<and>
          width r = of_int (xmax - xmin) / of_int w \<and>
          height r = of_int (ymax - ymin) / of_int h
      | _ \<Rightarrow> False)"

text \<open>A box inside the bounds of an image of width \<open>w\<close> and height \<open>h\<close>.\<close>

definition in_bounds :: "int \<Rightarrow> int \<Rightarrow> (string, pyval) dict \<Rightarrow> bool" where
  "in_bounds w h bbox =
     (case box_coords bbox of
        Some (xmin, ymin, xmax, ymax) \<Rightarrow>
          0 \<le> xmin \<and> xmin \<le> xmax \<and> xmax \<le> w \<and> 0 \<le> ymin \<and> ymin \<le> ymax \<and> ymax \<le> h
      | None \<Rightarrow> False)"

text \<open>
  A box with its four coordinates, whose four quotients are within the binary64 range.
\<close>

definition finite_line :: "int \<Rightarrow> int \<Rightarrow> (string, pyval) dict \<Rightarrow> bool" where
  "finite_line w h bbox =
     (case box_coords bbox of
        Some (xmin, ymin, xmax, ymax) \<Rightarrow>
          \<not> overflows (xmin + xmax) (2 * w) \<and> \<not> overflows (ymin + ymax) (2 * h) \<and>
          \<not> overflows (xmax - xmin) w \<and> \<not> overflows (ymax - ymin) h
      | None \<Rightarrow> False)"

definition unit_interval :: "rat \<Rightarrow> bool" where
  "unit_interval x = (0 \<le> x \<and> x \<le> 1)"



text \<open>
  The class names of all the boxes of a batch of parsed annotations, in order
  (\<open>None\<close> for a box without a \<open>name\<close> entry).
\<close>

definition box_names :: "anno list \<Rightarrow> pyval option list" where
  "box_names annos = concat (map (\<lambda>a. map (\<lambda>obj. map_of obj ''name'') (object a)) annos)"

text \<open>
  The Distribution Analyzer as the specification words it: an entry for each class name
  that occurs, with its number of occurrences, and the total number of boxes as \<open>N\<close>.
\<close>

definition class_count :: "anno list \<Rightarrow> pyval \<Rightarrow> int" where
  "class_count annos nm = int (count_list (box_names annos) (Some nm))"

definition total_count :: "anno list \<Rightarrow> int" where
  "total_count annos = int (length (box_names annos))"

text \<open>
  How an entry written by \<open>analysis.py\<close> relates to the entry \<open>parser.py\<close> writes
  for the same element: the same key, and the value \<open>int(float(text))\<close> of the raw
  text.
\<close>

definition text_of :: "pyval \<Rightarrow> string option" where
  "text_of v = (case v of PStr s \<Rightarrow> Some s | _ \<Rightarrow> None)"

definition converted :: "pyval \<Rightarrow> pyval \<Rightarrow> bool" where
  "converted raw v = (case v of PInt i \<Rightarrow> raw = text_val (text_of raw) \<and> int_float (text_of raw) = Inr i
                      | _ \<Rightarrow> False)"

definition conv_entry :: "string \<times> pyval \<Rightarrow> string \<times> pyval \<Rightarrow> bool" where
  "conv_entry e e' = (fst e' = fst e \<and> converted (snd e) (snd e'))"

text \<open>
  For the dictionary of a box: the \<open>name\<close> entries of the two parsers are equal, and
  every other entry is converted.
\<close>

definition box_entry :: "string \<times> pyval \<Rightarrow> string \<times> pyval \<Rightarrow> bool" where
  "box_entry e e' = (if fst e = ''name'' then e' = e else conv_entry e e')"

text \<open>
  \<open>int(float(text))\<close> as a partial function: \<open>None\<close> when the conversion raises.
\<close>

definition int_of_text :: "string option \<Rightarrow> int option" where
  "int_of_text t = (case int_float t of Inl e \<Rightarrow> None | Inr i \<Rightarrow> Some i)"

text \<open>
  What a dictionary holds under the key \<open>k\<close> after the conversion loop over
  \<open>items\<close>, started from the dictionary \<open>d\<close>: \<open>int(float(text))\<close> of the text of
  the last item with the tag \<open>k\<close>, or, with no such item, what \<open>d\<close> holds.
\<close>

definition stored :: "element list \<Rightarrow> (string, pyval) dict \<Rightarrow> string \<Rightarrow> pyval option" where
  "stored items d k =
     (case List.find (\<lambda>c. tag c = k) (rev items) of
        None \<Rightarrow> map_of d k
      | Some c \<Rightarrow> map_option PInt (int_of_text (etext c)))"

text \<open>
  The elements whose text the parser converts: the children of \<open>size\<close> and the
  children of the \<open>bndbox\<close> of every \<open>object\<close>.
\<close>

definition numeric_fields :: "element \<Rightarrow> element list" where
  "numeric_fields tree =
     (case find_child ''size'' tree of None \<Rightarrow> [] | Some size_el \<Rightarrow> children size_el) @
     concat (map (\<lambda>obj. case find_child ''bndbox'' obj of None \<Rightarrow> [] | Some bbox \<Rightarrow> children bbox)
               (findall ''object'' tree))"

text \<open>
  An annotation is plain when no \<open>bndbox\<close> has a child with the tag \<open>name\<close> (such a
  child would overwrite the class name of its box).
\<close>

definition plain_boxes :: "element \<Rightarrow> bool" where
  "plain_boxes tree =
     list_all (\<lambda>obj. case find_child ''bndbox'' obj of
                        None \<Rightarrow> True
                      | Some bbox \<Rightarrow> ''name'' \<notin> set (map tag (children bbox)))
       (findall ''object'' tree)"

section \<open>An example data set\<close>

text \<open>
  The annotation \<open>annos/img1.xml\<close> of a 100 by 50 image with three boxes: a
  \<open>dog\<close>, a \<open>unicorn\<close> whose \<open>bndbox\<close> has no coordinates, and a \<open>cat\<close>
  covering the whole image.
\<close>

definition img1 :: element where
  "img1 =
     Element ''annotation'' None
      [Element ''filename'' (Some ''img1.jpg'') [],
       Element ''size'' None
        [Element ''width'' (Some ''100'') [],
         Element ''height'' (Some ''50.0'') [],
         Element ''depth'' (Some ''3'') []],
       Element ''object'' None
        [Element ''name'' (Some ''dog'') [],
         Element ''bndbox'' None
          [Element ''xmin'' (Some ''10'') [], Element ''ymin'' (Some ''5'') [],
           Element ''xmax'' (Some ''30'') [], Element ''ymax'' (Some ''25'') []]],
       Element ''object'' None
        [Element ''name'' (Some ''unicorn'') [],
         Element ''bndbox'' None []],
       Element ''object'' None
        [Element ''name'' (Some ''cat'') [],
         Element ''bndbox'' None
          [Element ''xmin'' (Some ''0'') [], Element ''ymin'' (Some ''0'') [],
           Element ''xmax'' (Some ''100'') [], Element ''ymax'' (Some ''50'') []]]]"

text \<open>
  A file system with that annotation in the folder \<open>annos\<close>, the names file
  \<open>classes.names\<close> with the lines \<open>cat\<close>, \<open>dog\<close>, \<open>bird\<close>, and no output
  directory yet.
\<close>

definition example_fs :: env where
  "example_fs =
     \<lparr>listdir = (\<lambda>p. if p = ''annos'' then Inr [''img1.xml''] else Inl FileNotFoundError),
      etree = (\<lambda>p. if p = ''annos/img1.xml'' then Inr img1 else Inl FileNotFoundError),
      read_text = (\<lambda>p. if p = ''classes.names'' then Inr ''cat\<newline>dog\<newline>bird\<newline>''
                        else Inl FileNotFoundError),
      isdir = (\<lambda>p. False),
      mkdir = (\<lambda>p. None),
      open_w = (\<lambda>p. None),
      cpu_count = 4,
      first_failure = (\<lambda>n. 0)\<rparr>"

definition img1_rows :: "row list" where
  "img1_rows =
     [\<lparr>label = 1, x_center = 1 / 5, y_center = 3 / 10, width = 1 / 5, height = 2 / 5\<rparr>,
      \<lparr>label = 0, x_center = 1 / 2, y_center = 1 / 2, width = 1, height = 1\<rparr>]"

text \<open>What \<open>parse_anno\<close> of \<open>analysis.py\<close> returns for it.\<close>

definition img1_anno :: anno where
  "img1_anno =
     \<lparr>annoname = Some ''img1.xml'', filename = PStr ''img1.jpg'',
      size_dict = [(''width'', PInt 100), (''height'', PInt 50), (''depth'', PInt 3)],
      object =
        [[(''name'', PStr ''dog''), (''xmin'', PInt 10), (''ymin'', PInt 5),
          (''xmax'', PInt 30), (''ymax'', PInt 25)],
         [(''name'', PStr ''unicorn'')],
         [(''name'', PStr ''cat''), (''xmin'', PInt 0), (''ymin'', PInt 0),
          (''xmax'', PInt 100), (''ymax'', PInt 50)]]\<rparr>"

text \<open>
  A folder \<open>pets\<close> with the one annotation \<open>n.xml\<close>, whose only box has the class
  name \<open>N\<close>.
\<close>

definition n_xml :: element where
  "n_xml =
     Element ''annotation'' None
      [Element ''filename'' (Some ''n.jpg'') [],
       Element ''size'' None
        [Element ''width'' (Some ''10'') [], Element ''height'' (Some ''10'') []],
       Element ''object'' None
        [Element ''name'' (Some ''N'') [],
         Element ''bndbox'' None
          [Element ''xmin'' (Some ''1'') [], Element ''ymin'' (Some ''1'') [],
           Element ''xmax'' (Some ''2'') [], Element ''ymax'' (Some ''2'') []]]]"

definition n_fs :: env where
  "n_fs =
     \<lparr>listdir = (\<lambda>p. if p = ''pets'' then Inr [''n.xml''] else Inl FileNotFoundError),
      etree = (\<lambda>p. if p = ''pets/n.xml'' then Inr n_xml else Inl FileNotFoundError),
      read_text = (\<lambda>p. Inl FileNotFoundError),
      isdir = (\<lambda>p. p = ''pets''),
      mkdir = (\<lambda>p. None),
      open_w = (\<lambda>p. None),
      cpu_count = 4,
      first_failure = (\<lambda>n. 0)\<rparr>"

definition n_anno :: anno where
  "n_anno =
     \<lparr>annoname = Some ''n.xml'', filename = PStr ''n.jpg'',
      size_dict = [(''width'', PInt 10), (''height'', PInt 10)],
      object =
        [[(''name'', PStr ''N''), (''xmin'', PInt 1), (''ymin'', PInt 1),
          (''xmax'', PInt 2), (''ymax'', PInt 2)]]\<rparr>"

text \<open>What \<open>parse_anno\<close> of \<open>parser.py\<close> returns for \<open>annos/img1.xml\<close>.\<close>

definition img1_raw :: anno where
  "img1_raw =
     \<lparr>annoname = None, filename = PStr ''img1.jpg'',
      size_dict = [(''width'', PStr ''100''), (''height'', PStr ''50.0''), (''depth'', PStr ''3'')],
      object =
        [[(''name'', PStr ''dog''), (''xmin'', PStr ''10''), (''ymin'', PStr ''5''),
          (''xmax'', PStr ''30''), (''ymax'', PStr ''25'')],
         [(''name'', PStr ''unicorn'')],
         [(''name'', PStr ''cat''), (''xmin'', PStr ''0''), (''ymin'', PStr ''0''),
          (''xmax'', PStr ''100''), (''ymax'', PStr ''50'')]]\<rparr>"

text \<open>
  Three more annotations, without boxes: \<open>wide.xml\<close>, whose \<open>width\<close> has the text
  \<open>wide\<close>; \<open>nowidth.xml\<close>, whose \<open>size\<close> has no \<open>width\<close> child;
  \<open>empty.xml\<close>, whose \<open>width\<close> has no text.  And \<open>float.xml\<close>, with one box,
  whose numbers are written as floating point literals.
\<close>

definition float_xml :: element where
  "float_xml =
     Element ''annotation'' None
      [Element ''filename'' (Some ''x.jpg'') [],
       Element ''size'' None
        [Element ''width'' (Some ''1621.0'') [],
         Element ''height'' (Some ''1216'') [],
         Element ''depth'' (Some ''3'') []],
       Element ''object'' None
        [Element ''name'' (Some ''class1'') [],
         Element ''bndbox'' None
          [Element ''xmin'' (Some ''904.7'') [], Element ''ymin'' (Some '' 674 '') [],
           Element ''xmax'' (Some ''926.0'') [], Element ''ymax'' (Some ''6.95e2'') []]]]"

definition sized :: "element list \<Rightarrow> element" where
  "sized cs =
     Element ''annotation'' None
      [Element ''filename'' (Some ''x.jpg'') [], Element ''size'' None cs]"

definition odd_fs :: env where
  "odd_fs =
     \<lparr>listdir = (\<lambda>p. Inl FileNotFoundError),
      etree = (\<lambda>p.
        if p = ''wide.xml'' then
          Inr (sized [Element ''width'' (Some ''wide'') [], Element ''height'' (Some ''50'') []])
        else if p = ''nowidth.xml'' then
          Inr (sized [Element ''height'' (Some ''50'') []])
        else if p = ''empty.xml'' then
          Inr (sized [Element ''width'' None [], Element ''height'' (Some ''50'') []])
        else if p = ''float.xml'' then Inr float_xml
        else Inl FileNotFoundError),
      read_text = (\<lambda>p. Inl FileNotFoundError),
      isdir = (\<lambda>p. False),
      mkdir = (\<lambda>p. None),
      open_w = (\<lambda>p. None),
      cpu_count = 4,
      first_failure = (\<lambda>n. 0)\<rparr>"

definition float_anno :: anno where
  "float_anno =
     \<lparr>annoname = Some ''float.xml'', filename = PStr ''x.jpg'',
      size_dict = [(''width'', PInt 1621), (''height'', PInt 1216), (''depth'', PInt 3)],
      object =
        [[(''name'', PStr ''class1''), (''xmin'', PInt 904), (''ymin'', PInt 674),
          (''xmax'', PInt 926), (''ymax'', PInt 695)]]\<rparr>"

definition nowidth_anno :: anno where
  "nowidth_anno =
     \<lparr>annoname = Some ''nowidth.xml'', filename = PStr ''x.jpg'',
      size_dict = [(''height'', PInt 50)], object = []\<rparr>"

section \<open>Properties of the Folder Matcher\<close>

lemma all_in_subset: "all_in names S \<longleftrightarrow> set (map stem names) \<subseteq> S"
  by (induction names) auto

lemma check_match_spec_imp: "check_match_spec name_1 name_2 \<Longrightarrow> check_match name_1 name_2"
  by (simp add: check_match_def check_match_spec_def all_in_subset)

text \<open>
  When no two names of the second listing share a stem, equal counts and containment in
  one direction do give equality of the two sets of stems.
\<close>

lemma check_match_distinct_stems:
  assumes "distinct (map stem name_2)"
  shows "check_match name_1 name_2 = check_match_spec name_1 name_2"
proof (cases "length name_1 = length name_2")
  case False
  then show ?thesis by (simp add: check_match_def check_match_spec_def)
next
  case True
  have "set (map stem name_1) = set (map stem name_2)"
    if sub: "set (map stem name_2) \<subseteq> set (map stem name_1)"
  proof -
    have "card (set (map stem name_1)) \<le> length name_1"
      using card_length [of "map stem name_1"] by simp
    also have "\<dots> = card (set (map stem name_2))"
      using assms True distinct_card [of "map stem name_2"] by simp
    finally show ?thesis
      using sub card_seteq [of "set (map stem name_1)" "set (map stem name_2)"] by auto
  qed
  then show ?thesis
    using True by (auto simp: check_match_def check_match_spec_def all_in_subset)
qed

text \<open>
  C1.  \<open>check_match\<close> is claimed to return true exactly when the two listings have the
  same number of entries and the same set of extension-stripped names.  On the listings
  \<open>a.xml, b.xml\<close> and \<open>a.jpg, a.png\<close> the counts are equal and every stem of the
  second listing is among the stems of the first, so \<open>check_match\<close> returns true,
  although \<open>b\<close> has no counterpart and the two sets of stems differ.
\<close>

theorem check_match_accepts_unmatched_name:
  "check_match [''a.xml'', ''b.xml''] [''a.jpg'', ''a.png''] \<and>
   \<not> check_match_spec [''a.xml'', ''b.xml''] [''a.jpg'', ''a.png'']"
  by code_simp

section \<open>Properties of the Label Generator\<close>

lemma bind_err_Inr: "bind_err m f = Inr y \<longleftrightarrow> (\<exists>x. m = Inr x \<and> f x = Inr y)"
  by (cases m) (auto simp: bind_err_def)

lemma bind_err_simps [simp]: "bind_err (Inr x) f = f x" "bind_err (Inl e) f = Inl e"
  by (simp_all add: bind_err_def)

lemma getitem_Inr: "getitem d k = Inr v \<longleftrightarrow> map_of d k = Some v"
  by (auto simp: getitem_def split: option.splits)

lemma py_add_Inr_int: "py_add a b = Inr s \<Longrightarrow> py_truediv s c = Inr q \<Longrightarrow>
  \<exists>x y z. a = PInt x \<and> b = PInt y \<and> c = PInt z \<and> z \<noteq> 0 \<and> q = of_int (x + y) / of_int z"
  by (auto simp: py_add_def py_truediv_def split: pyval.splits if_splits)

lemma py_sub_Inr_int: "py_sub a b = Inr s \<Longrightarrow> py_truediv s c = Inr q \<Longrightarrow>
  \<exists>x y z. a = PInt x \<and> b = PInt y \<and> c = PInt z \<and> z \<noteq> 0 \<and> q = of_int (x - y) / of_int z"
  by (auto simp: py_sub_def py_truediv_def split: pyval.splits if_splits)

lemma py_twice_Inr_int: "py_twice W = Inr (PInt z) \<Longrightarrow> \<exists>w. W = PInt w \<and> z = 2 * w"
  by (auto simp: py_twice_def split: pyval.splits)

lemma gen_row_Inr:
  assumes "gen_row name2label W H bbox = Inr r"
  shows "\<exists>w h. W = PInt w \<and> H = PInt h \<and> spec_line name2label w h bbox r"
proof -
  from assms obtain nm lab xmin xmax sx w2 xc ymin ymax sy h2 yc dx wd dy ht where
    nm: "map_of bbox ''name'' = Some nm" and lab: "map_of name2label nm = Some lab" and
    xmin: "map_of bbox ''xmin'' = Some xmin" and xmax: "map_of bbox ''xmax'' = Some xmax" and
    sx: "py_add xmin xmax = Inr sx" and w2: "py_twice W = Inr w2" and xc: "py_truediv sx w2 = Inr xc" and
    ymin: "map_of bbox ''ymin'' = Some ymin" and ymax: "map_of bbox ''ymax'' = Some ymax" and
    sy: "py_add ymin ymax = Inr sy" and h2: "py_twice H = Inr h2" and yc: "py_truediv sy h2 = Inr yc" and
    dx: "py_sub xmax xmin = Inr dx" and wd: "py_truediv dx W = Inr wd" and
    dy: "py_sub ymax ymin = Inr dy" and ht: "py_truediv dy H = Inr ht" and
    r: "r = \<lparr>label = lab, x_center = xc, y_center = yc, width = wd, height = ht\<rparr>"
    unfolding gen_row_def bind_err_Inr getitem_Inr by force
  from py_add_Inr_int [OF sx xc] obtain x0 x1 z where
    X: "xmin = PInt x0" "xmax = PInt x1" "w2 = PInt z" "z \<noteq> 0" "xc = of_int (x0 + x1) / of_int z"
    by blast
  from py_add_Inr_int [OF sy yc] obtain y0 y1 z' where
    Y: "ymin = PInt y0" "ymax = PInt y1" "h2 = PInt z'" "z' \<noteq> 0" "yc = of_int (y0 + y1) / of_int z'"
    by blast
  from py_twice_Inr_int w2 X(3) obtain w where w: "W = PInt w" "z = 2 * w" by blast
  from py_twice_Inr_int h2 Y(3) obtain h where h: "H = PInt h" "z' = 2 * h" by blast
  from py_sub_Inr_int [OF dx wd] X w have wd': "wd = of_int (x1 - x0) / of_int w" by auto
  from py_sub_Inr_int [OF dy ht] Y h have ht': "ht = of_int (y1 - y0) / of_int h" by auto
  have "spec_line name2label w h bbox r"
    using nm lab xmin xmax ymin ymax X Y w h wd' ht' r
    by (simp add: spec_line_def box_coords_def)
  with w h show ?thesis by blast
qed


lemma gen_rows_Inr:
  "gen_rows name2label W H objs = Inr rows \<Longrightarrow>
   list_all2 (\<lambda>b r. gen_row name2label W H b = Inr r) (filter (retained name2label) objs) rows"
proof (induction objs arbitrary: rows)
  case Nil
  then show ?case by simp
next
  case (Cons bbox rest)
  from Cons.prems obtain nm where nm: "map_of bbox ''name'' = Some nm"
    by (auto simp: bind_err_Inr getitem_Inr)
  show ?case
  proof (cases "contains name2label nm")
    case False
    with nm Cons show ?thesis by (simp add: retained_def getitem_def)
  next
    case True
    with nm Cons.prems obtain r rs where
      "gen_row name2label W H bbox = Inr r" "gen_rows name2label W H rest = Inr rs" "rows = r # rs"
      by (auto simp: bind_err_Inr getitem_def)
    with nm True Cons.IH show ?thesis by (simp add: retained_def)
  qed
qed

lemma gen_rows_spec:
  assumes "gen_rows name2label (PInt w) (PInt h) objs = Inr rows"
  shows "list_all2 (spec_line name2label w h) (filter (retained name2label) objs) rows"
proof -
  have "gen_row name2label (PInt w) (PInt h) b = Inr r \<Longrightarrow> spec_line name2label w h b r" for b r
    using gen_row_Inr [of name2label "PInt w" "PInt h" b r] by auto
  then show ?thesis
    using list_all2_mono [OF gen_rows_Inr [OF assms]] by blast
qed


lemma convert_items_ints:
  "convert_items d items = Inr d' \<Longrightarrow> map_of d' k = Some v \<Longrightarrow>
   (\<exists>i. v = PInt i) \<or> map_of d k = Some v"
proof (induction items arbitrary: d)
  case Nil
  then show ?case by simp
next
  case (Cons item rest)
  from Cons.prems(1) obtain i where
    "convert_items (AList.update (tag item) (PInt i) d) rest = Inr d'"
    by (auto simp: bind_err_Inr)
  from Cons.IH [OF this Cons.prems(2)] show ?case
    by (auto simp: update_conv' split: if_splits)
qed

lemma convert_items_keeps:
  "convert_items d items = Inr d' \<Longrightarrow> map_of d k \<noteq> None \<Longrightarrow> map_of d' k \<noteq> None"
proof (induction items arbitrary: d)
  case Nil
  then show ?case by simp
next
  case (Cons item rest)
  from Cons.prems(1) obtain i where
    c: "convert_items (AList.update (tag item) (PInt i) d) rest = Inr d'"
    by (auto simp: bind_err_Inr)
  show ?case
    by (rule Cons.IH [OF c]) (use Cons.prems(2) in \<open>simp add: update_conv'\<close>)
qed

lemma parse_object_name: "parse_object obj = Inr d \<Longrightarrow> map_of d ''name'' \<noteq> None"
  by (auto simp: parse_object_def split: option.splits dest!: convert_items_keeps [where k = "''name''"])

lemma parse_objects_names:
  "parse_objects objs = Inr ds \<Longrightarrow> \<forall>d \<in> set ds. map_of d ''name'' \<noteq> None"
  by (induction objs arbitrary: ds) (auto simp: bind_err_Inr dest: parse_object_name)

lemma parse_anno_Inr:
  assumes "parse_anno fs path_anno = Inr a"
  shows "\<exists>tree fn size_el.
     etree fs path_anno = Inr tree \<and> find_child ''filename'' tree = Some fn \<and>
     find_child ''size'' tree = Some size_el \<and>
     convert_items [] (children size_el) = Inr (size_dict a) \<and>
     parse_objects (findall ''object'' tree) = Inr (object a) \<and>
     annoname a = Some (basename path_anno) \<and> filename a = text_val (etext fn)"
proof -
  from assms obtain tree where t: "etree fs path_anno = Inr tree"
    by (auto simp: parse_anno_def bind_err_Inr)
  with assms obtain fn where fn: "find_child ''filename'' tree = Some fn"
    by (cases "find_child ''filename'' tree") (auto simp: parse_anno_def)
  with assms t obtain size_el where sz: "find_child ''size'' tree = Some size_el"
    by (cases "find_child ''size'' tree") (auto simp: parse_anno_def)
  from assms t fn sz show ?thesis
    by (auto simp: parse_anno_def bind_err_Inr)
qed

lemma parse_anno_size_int:
  assumes "parse_anno fs path_anno = Inr a" "map_of (size_dict a) k = Some v"
  shows "\<exists>i. v = PInt i"
  using parse_anno_Inr [OF assms(1)] convert_items_ints [of "[]" _ "size_dict a" k v] assms(2)
  by auto

lemma parse_anno_object_names:
  assumes "parse_anno fs path_anno = Inr a"
  shows "\<forall>d \<in> set (object a). map_of d ''name'' \<noteq> None"
  using parse_anno_Inr [OF assms] parse_objects_names by blast

lemma gen_label_Inr:
  assumes "gen_label fs path_anno path_names path_out = Inr (file, rows)"
  shows "\<exists>a f w h.
     parse_anno fs path_anno = Inr a \<and> read_text fs path_names = Inr f \<and>
     map_of (size_dict a) ''width'' = Some (PInt w) \<and>
     map_of (size_dict a) ''height'' = Some (PInt h) \<and>
     gen_rows (load_name2label f) (PInt w) (PInt h) (object a) = Inr rows \<and>
     file = join path_out (fst (splitext (basename path_anno)) @ ''.txt'')"
proof -
  from assms obtain a f W H where
    a: "parse_anno fs path_anno = Inr a" and f: "read_text fs path_names = Inr f" and
    W: "map_of (size_dict a) ''width'' = Some W" and H: "map_of (size_dict a) ''height'' = Some H" and
    rows: "gen_rows (load_name2label f) W H (object a) = Inr rows" and
    out: "file = join path_out (fst (splitext (basename path_anno)) @ ''.txt'')"
    unfolding gen_label_def bind_err_Inr getitem_Inr Let_def
    by (auto split: option.splits if_splits)
  from parse_anno_size_int [OF a W] parse_anno_size_int [OF a H]
  obtain w h where "W = PInt w" "H = PInt h" by blast
  with a f W H rows out show ?thesis by blast
qed

lemma example_gen_label:
  "gen_label example_fs ''annos/img1.xml'' ''classes.names'' ''labels'' =
     Inr (''labels/img1.txt'', img1_rows)"
  by code_simp

lemma example_parse_anno: "parse_anno example_fs ''annos/img1.xml'' = Inr img1_anno"
  by code_simp

lemma example_read_text:
  "read_text example_fs ''classes.names'' = Inr ''cat\<newline>dog\<newline>bird\<newline>''"
  by code_simp

text \<open>
  C2.  Whenever \<open>gen_label\<close> writes its file, the lines it writes are, in order, the
  lines of the retained boxes (those whose name is a key of the mapping), and each line
  is the label index of the box's name followed by
  \<open>(xmin + xmax) / (2 * width)\<close>, \<open>(ymin + ymax) / (2 * height)\<close>,
  \<open>(xmax - xmin) / width\<close> and \<open>(ymax - ymin) / height\<close>, computed from the
  parsed integer coordinates and the parsed image width and height.
\<close>

theorem gen_label_lines_follow_formulas:
  assumes "gen_label fs path_anno path_names path_out = Inr (file, rows)"
  shows "\<exists>a f w h.
     parse_anno fs path_anno = Inr a \<and> read_text fs path_names = Inr f \<and>
     map_of (size_dict a) ''width'' = Some (PInt w) \<and>
     map_of (size_dict a) ''height'' = Some (PInt h) \<and>
     list_all2 (spec_line (load_name2label f) w h)
       (filter (retained (load_name2label f)) (object a)) rows"
  using gen_label_Inr [OF assms] gen_rows_spec by blast

text \<open>The example annotation: \<open>gen_label\<close> writes two lines, and they are such lines.\<close>

theorem gen_label_lines_follow_formulas_witness:
  "gen_label example_fs ''annos/img1.xml'' ''classes.names'' ''labels'' =
     Inr (''labels/img1.txt'', img1_rows) \<and>
   (\<exists>a f w h.
     parse_anno example_fs ''annos/img1.xml'' = Inr a \<and>
     read_text example_fs ''classes.names'' = Inr f \<and>
     map_of (size_dict a) ''width'' = Some (PInt w) \<and>
     map_of (size_dict a) ''height'' = Some (PInt h) \<and>
     list_all2 (spec_line (load_name2label f) w h)
       (filter (retained (load_name2label f)) (object a)) img1_rows)"
  using gen_label_lines_follow_formulas [OF example_gen_label] example_gen_label by blast

lemma spec_line_unit_interval:
  assumes "spec_line name2label w h b r" "in_bounds w h b"
  shows "unit_interval (x_center r) \<and> unit_interval (y_center r) \<and>
         unit_interval (width r) \<and> unit_interval (height r)"
proof -
  from assms obtain xmin ymin xmax ymax where
    c: "box_coords b = Some (xmin, ymin, xmax, ymax)"
    by (auto simp: in_bounds_def split: option.splits)
  with assms have
    nz: "w \<noteq> 0" "h \<noteq> 0" and
    v: "x_center r = of_int (xmin + xmax) / of_int (2 * w)"
       "y_center r = of_int (ymin + ymax) / of_int (2 * h)"
       "width r = of_int (xmax - xmin) / of_int w"
       "height r = of_int (ymax - ymin) / of_int h" and
    b: "0 \<le> xmin" "xmin \<le> xmax" "xmax \<le> w" "0 \<le> ymin" "ymin \<le> ymax" "ymax \<le> h"
    by (auto simp: spec_line_def in_bounds_def split: option.splits)
  from nz b have pos: "0 < w" "0 < h" by linarith+
  have q: "0 \<le> (of_int p :: rat) / of_int d \<and> of_int p / of_int d \<le> (1 :: rat)"
    if "0 \<le> p" "p \<le> d" "0 < d" for p d :: int
    using that by (simp add: divide_le_eq_1)
  show ?thesis
    unfolding v unit_interval_def
    using q [of "xmin + xmax" "2 * w"] q [of "ymin + ymax" "2 * h"]
      q [of "xmax - xmin" w] q [of "ymax - ymin" h] b pos by simp
qed

lemma list_all2_right_elem:
  "list_all2 P xs ys \<Longrightarrow> y \<in> set ys \<Longrightarrow> \<exists>x \<in> set xs. P x y"
  by (induction rule: list_all2_induct) auto

text \<open>
  C3.  When every retained box of the annotation has \<open>0 \<le> xmin \<le> xmax \<le> width\<close>
  and \<open>0 \<le> ymin \<le> ymax \<le> height\<close>, each of the four normalized values of every
  line that \<open>gen_label\<close> writes lies between 0 and 1.  (The image width and height are
  then positive: \<open>gen_label\<close> raises \<open>ZeroDivisionError\<close> on a retained box of an
  image of width or height 0.)
\<close>

theorem gen_label_values_in_unit_interval:
  assumes "gen_label fs path_anno path_names path_out = Inr (file, rows)"
    and "parse_anno fs path_anno = Inr a"
    and "read_text fs path_names = Inr f"
    and "map_of (size_dict a) ''width'' = Some (PInt w)"
    and "map_of (size_dict a) ''height'' = Some (PInt h)"
    and "list_all (in_bounds w h) (filter (retained (load_name2label f)) (object a))"
  shows "list_all (\<lambda>r. unit_interval (x_center r) \<and> unit_interval (y_center r) \<and>
                       unit_interval (width r) \<and> unit_interval (height r)) rows"
proof -
  from gen_label_Inr [OF assms(1)] assms(2-5) have
    "gen_rows (load_name2label f) (PInt w) (PInt h) (object a) = Inr rows"
    by auto
  from gen_rows_spec [OF this] have
    l: "list_all2 (spec_line (load_name2label f) w h)
          (filter (retained (load_name2label f)) (object a)) rows" .
  have "\<forall>r \<in> set rows. unit_interval (x_center r) \<and> unit_interval (y_center r) \<and>
                       unit_interval (width r) \<and> unit_interval (height r)"
  proof
    fix r assume r: "r \<in> set rows"
    from list_all2_right_elem [OF l r] obtain b where
      b: "b \<in> set (filter (retained (load_name2label f)) (object a))"
         "spec_line (load_name2label f) w h b r"
      by auto
    moreover from b(1) assms(6) have "in_bounds w h b" by (simp add: list_all_iff)
    ultimately show "unit_interval (x_center r) \<and> unit_interval (y_center r) \<and>
                       unit_interval (width r) \<and> unit_interval (height r)"
      using spec_line_unit_interval by blast
  qed
  then show ?thesis by (simp add: list_all_iff)
qed

text \<open>The example annotation: its two retained boxes are inside the 100 by 50 image.\<close>

theorem gen_label_values_in_unit_interval_witness:
  "list_all (in_bounds 100 50)
     (filter (retained (load_name2label ''cat\<newline>dog\<newline>bird\<newline>'')) (object img1_anno)) \<and>
   list_all (\<lambda>r. unit_interval (x_center r) \<and> unit_interval (y_center r) \<and>
                  unit_interval (width r) \<and> unit_interval (height r)) img1_rows"
proof -
  have w: "map_of (size_dict img1_anno) ''width'' = Some (PInt 100)" by code_simp
  have h: "map_of (size_dict img1_anno) ''height'' = Some (PInt 50)" by code_simp
  have b: "list_all (in_bounds 100 50)
     (filter (retained (load_name2label ''cat\<newline>dog\<newline>bird\<newline>'')) (object img1_anno))"
    by code_simp
  from gen_label_values_in_unit_interval
    [OF example_gen_label example_parse_anno example_read_text w h b] b
  show ?thesis by blast
qed




subsection \<open>Quotients within the binary64 range\<close>

lemma bit_length_nonneg: "0 \<le> bit_length n"
  by (induction n rule: bit_length.induct) (subst bit_length.simps, simp)

lemma bit_length_mono: "a \<le> b \<Longrightarrow> bit_length a \<le> bit_length b"
proof (induction b arbitrary: a rule: bit_length.induct)
  case (1 n)
  show ?case
  proof (cases "a \<le> 0")
    case True
    then have "bit_length a = 0" by (subst bit_length.simps) simp
    with bit_length_nonneg [of n] show ?thesis by simp
  next
    case False
    with "1.prems" have n: "\<not> n \<le> 0" by simp
    from "1.prems" have "a div 2 \<le> n div 2" by (simp add: zdiv_mono1)
    from "1.IH" [OF n this] False n show ?thesis
      by (subst bit_length.simps, subst (2) bit_length.simps) simp
  qed
qed

lemma floor_log2_le_0: "x \<le> y \<Longrightarrow> floor_log2 x y \<le> 0"
  using bit_length_mono [of x y]
  by (auto simp: floor_log2_def Let_def split: prod.splits)

lemma round_half_even_le: "0 \<le> n \<Longrightarrow> 0 < d \<Longrightarrow> round_half_even n d \<le> n div d + 1"
  by (simp add: round_half_even_def Let_def)

lemma not_overflows_le:
  assumes "0 \<le> x" and "x \<le> y" and "0 < y"
  shows "\<not> overflows x y"
proof (cases "x = 0")
  case True
  then show ?thesis by (simp add: overflows_def to_double_def)
next
  case False
  define e where "e = max (floor_log2 x y) (- 1022)"
  define n where "n = nat (52 - e)"
  have e: "e \<le> 0" "- 1022 \<le> e" using floor_log2_le_0 [OF assms(2)] by (simp_all add: e_def)
  then have s: "\<not> 0 \<le> e - 52" "\<not> 0 \<le> e - 52 - 1024" by simp_all
  have n: "nat (52 - e) = n" "nat (1076 - e) = n + 1024"
    using e by (simp_all add: n_def)
  let ?m = "round_half_even (x * 2 ^ n) y"
  have "x * 2 ^ n div y \<le> y * 2 ^ n div y"
    using assms by (intro zdiv_mono1 mult_right_mono) simp_all
  also have "\<dots> = 2 ^ n" using assms(3) by simp
  finally have "?m \<le> 2 ^ n + 1"
    using round_half_even_le [of "x * 2 ^ n" y] assms by simp
  also have "\<dots> < (2::int) ^ (n + 1024)"
  proof -
    have "(2::int) ^ n + 1 \<le> 2 ^ n + 2 ^ n" by simp
    also have "\<dots> = 2 ^ (n + 1)" by simp
    also have "\<dots> < (2::int) ^ (n + 1024)" by (intro power_strict_increasing) simp_all
    finally show ?thesis .
  qed
  finally have m: "\<not> (2::int) ^ (n + 1024) \<le> ?m" by simp
  have "to_double False x y = Fin False ?m (e - 52)"
    using False s m assms
    by (simp add: to_double_def Let_def scale2_def e_def [symmetric] n)
  with assms show ?thesis by (simp add: overflows_def)
qed

text \<open>
  The quotients of a box inside the bounds of an image of positive width and height are
  within the binary64 range.
\<close>

lemma in_bounds_finite_line:
  assumes "in_bounds w h b" and "0 < w" and "0 < h"
  shows "finite_line w h b"
proof -
  from assms(1) obtain xmin ymin xmax ymax where
    c: "box_coords b = Some (xmin, ymin, xmax, ymax)" and
    b: "0 \<le> xmin" "xmin \<le> xmax" "xmax \<le> w" "0 \<le> ymin" "ymin \<le> ymax" "ymax \<le> h"
    by (auto simp: in_bounds_def split: option.splits)
  have "\<not> overflows (xmin + xmax) (2 * w)" "\<not> overflows (ymin + ymax) (2 * h)"
    "\<not> overflows (xmax - xmin) w" "\<not> overflows (ymax - ymin) h"
    using b assms(2,3) by (intro not_overflows_le; simp)+
  with c show ?thesis by (simp add: finite_line_def)
qed

lemma round_half_even_bounds:
  assumes "0 \<le> n" and "0 < d" and "n \<le> k * d"
  shows "0 \<le> round_half_even n d" and "round_half_even n d \<le> k"
proof -
  from assms(1,2) have q0: "0 \<le> n div d" by (simp add: pos_imp_zdiv_nonneg_iff)
  then show "0 \<le> round_half_even n d" by (simp add: round_half_even_def Let_def)
  from assms(2,3) have qk: "n div d \<le> k"
    by (metis div_mult_self2 less_irrefl nonzero_mult_div_cancel_right zdiv_mono1)
  show "round_half_even n d \<le> k"
  proof (cases "n div d = k")
    case True
    have "n = d * (n div d) + n mod d" by simp
    with True assms(3) have "n mod d \<le> 0" by (simp add: mult.commute)
    with assms(2) have "n mod d = 0" by (simp add: order_antisym)
    with True assms(2) show ?thesis by (simp add: round_half_even_def Let_def)
  next
    case False
    with qk have "n div d + 1 \<le> k" by simp
    then show ?thesis by (simp add: round_half_even_def Let_def)
  qed
qed

text \<open>
  The binary64 quotient of \<open>x / y\<close> with \<open>0 \<le> x \<le> y\<close>, as Python computes it, is a
  finite value between 0 and 1: the bounds proved for the exact quotients of a box inside
  the image hold for the rounded quotients too.
\<close>

lemma binary64_quotient_unit_interval:
  assumes "0 \<le> x" and "x \<le> y" and "0 < y"
  shows "\<exists>m s. to_double False x y = Fin False m s \<and> 0 \<le> m \<and>
               (case scale2 m s of (p, q) \<Rightarrow> 0 < q \<and> p \<le> q)"
proof (cases "x = 0")
  case True
  then show ?thesis by (simp add: to_double_def scale2_def)
next
  case False
  define e where "e = max (floor_log2 x y) (- 1022)"
  define n where "n = nat (52 - e)"
  have e: "e \<le> 0" "- 1022 \<le> e" using floor_log2_le_0 [OF assms(2)] by (simp_all add: e_def)
  have n: "nat (52 - e) = n" "nat (1076 - e) = n + 1024"
    using e by (simp_all add: n_def)
  let ?m = "round_half_even (x * 2 ^ n) y"
  have "x * 2 ^ n \<le> 2 ^ n * y" using assms by (simp add: mult.commute mult_left_mono)
  from round_half_even_bounds [OF _ assms(3) this] assms(1)
  have m: "0 \<le> ?m" "?m \<le> 2 ^ n" by simp_all
  have lt: "(2::int) ^ n < 2 ^ (n + 1024)" by (intro power_strict_increasing) simp_all
  from m(2) lt have "?m < 2 ^ (n + 1024)" by (rule le_less_trans)
  then have "\<not> (2::int) ^ (n + 1024) \<le> ?m" by (simp only: not_le)
  then have "to_double False x y = Fin False ?m (e - 52)"
    using False e assms
    by (simp add: to_double_def Let_def scale2_def e_def [symmetric] n)
  moreover have "case scale2 ?m (e - 52) of (p, q) \<Rightarrow> 0 < q \<and> p \<le> q"
    using e m by (simp add: scale2_def n)
  ultimately show ?thesis using m(1) by (intro exI conjI)
qed

subsection \<open>Boxes of unknown class\<close>

text \<open>
  Once the annotation is parsed, a box whose class name is not a key of the mapping has no
  effect on the loop of \<open>gen_label\<close>: the loop gives the same lines, or raises the same
  exception, as on the retained boxes alone.
\<close>

lemma gen_rows_ignores_unknown:
  assumes "\<forall>b \<in> set objs. map_of b ''name'' \<noteq> None"
  shows "gen_rows name2label W H objs = gen_rows name2label W H (filter (retained name2label) objs)"
  using assms
proof (induction objs)
  case Nil
  then show ?case by simp
next
  case (Cons bbox rest)
  from Cons.prems obtain nm where nm: "map_of bbox ''name'' = Some nm" by auto
  from Cons have IH: "gen_rows name2label W H rest =
      gen_rows name2label W H (filter (retained name2label) rest)" by simp
  have r: "retained name2label bbox = contains name2label nm"
    using nm by (simp add: retained_def)
  show ?case
  proof (cases "contains name2label nm")
    case False
    with nm IH r show ?thesis by (simp add: getitem_def)
  next
    case True
    with nm IH r show ?thesis by (simp add: getitem_def)
  qed
qed



section \<open>Properties of the name-to-index mapping\<close>

lemma update_fresh: "k \<notin> fst ` set d \<Longrightarrow> AList.update k v d = d @ [(k, v)]"
  by (induction d) auto

lemma build_name2label_fresh:
  "distinct (map strip_nl ls) \<Longrightarrow> (\<forall>l \<in> set ls. PStr (strip_nl l) \<notin> fst ` set d) \<Longrightarrow>
   build_name2label d n ls =
     d @ zip (map (\<lambda>l. PStr (strip_nl l)) ls) (map (\<lambda>i. n + int i) [0..<length ls])"
proof (induction ls arbitrary: d n)
  case Nil
  then show ?case by simp
next
  case (Cons l ls)
  let ?k = "PStr (strip_nl l)"
  have fresh: "?k \<notin> fst ` set d" using Cons.prems(2) by simp
  have d': "\<forall>l' \<in> set ls. PStr (strip_nl l') \<notin> fst ` set (d @ [(?k, n)])"
    using Cons.prems by (auto simp: image_iff)
  have idx: "map (\<lambda>i. n + int i) [0..<Suc (length ls)] =
             n # map (\<lambda>i. (n + 1) + int i) [0..<length ls]"
    by (simp add: upt_conv_Cons map_Suc_upt [symmetric] del: upt_Suc)
  have "build_name2label d n (l # ls) = build_name2label (d @ [(?k, n)]) (n + 1) ls"
    using fresh by (simp add: update_fresh)
  also have "\<dots> = (d @ [(?k, n)]) @ zip (map (\<lambda>l. PStr (strip_nl l)) ls)
                      (map (\<lambda>i. (n + 1) + int i) [0..<length ls])"
    using Cons.prems(1) d' by (intro Cons.IH) auto
  finally show ?case using idx by simp
qed

text \<open>
  In general a name is mapped to the index of the last line that holds it: a later line
  with the same name overwrites the entry.
\<close>

lemma build_name2label_last:
  "map_of (build_name2label d n ls) =
     map_of d ++ map_of (rev (zip (map (\<lambda>l. PStr (strip_nl l)) ls)
                                   (map (\<lambda>i. n + int i) [0..<length ls])))"
proof (induction ls arbitrary: d n)
  case Nil
  then show ?case by simp
next
  case (Cons l ls)
  have idx: "map (\<lambda>i. n + int i) [0..<Suc (length ls)] =
             n # map (\<lambda>i. (n + 1) + int i) [0..<length ls]"
    by (simp add: upt_conv_Cons map_Suc_upt [symmetric] del: upt_Suc)
  show ?case
    unfolding build_name2label.simps Cons.IH length_Cons idx
    by (simp add: update_conv' map_add_upd_left fun_eq_iff map_add_def split: option.splits)
qed

text \<open>
  C6, as amended.  For a names file whose lines hold pairwise distinct names, the mapping
  that \<open>gen_label\<close> builds is exactly the list of the names, in line order, each with
  the zero-based index of its line.
\<close>

theorem name2label_follows_line_order:
  assumes "distinct (map strip_nl (file_lines (universal_newlines f)))"
  shows "load_name2label f =
     zip (map (\<lambda>l. PStr (strip_nl l)) (file_lines (universal_newlines f)))
         (map int [0..<length (file_lines (universal_newlines f))])"
  using build_name2label_fresh [OF assms, of "[]" 0] by (simp add: load_name2label_def)

text \<open>The names file with the three lines \<open>cat\<close>, \<open>dog\<close>, \<open>bird\<close>.\<close>

theorem name2label_follows_line_order_witness:
  "load_name2label ''cat\<newline>dog\<newline>bird\<newline>'' =
     [(PStr ''cat'', 0), (PStr ''dog'', 1), (PStr ''bird'', 2)]"
proof -
  have d: "distinct (map strip_nl (file_lines (universal_newlines ''cat\<newline>dog\<newline>bird\<newline>'')))"
    by code_simp
  have z: "zip (map (\<lambda>l. PStr (strip_nl l)) (file_lines (universal_newlines ''cat\<newline>dog\<newline>bird\<newline>'')))
         (map int [0..<length (file_lines (universal_newlines ''cat\<newline>dog\<newline>bird\<newline>''))]) =
     [(PStr ''cat'', 0), (PStr ''dog'', 1), (PStr ''bird'', 2)]"
    by code_simp
  show ?thesis
    by (simp only: name2label_follows_line_order [OF d] z)
qed

text \<open>
  The claim as stated fails on a names file that repeats a name: with the lines
  \<open>cat\<close>, \<open>dog\<close>, \<open>cat\<close> the name of line 0 is mapped to 2, and no name is
  mapped to 0.
\<close>

theorem name2label_repeated_name_counterexample:
  "strip_nl (file_lines (universal_newlines ''cat\<newline>dog\<newline>cat'') ! 0) = ''cat'' \<and>
   load_name2label ''cat\<newline>dog\<newline>cat'' = [(PStr ''cat'', 2), (PStr ''dog'', 1)]"
  by code_simp

section \<open>Properties of the Distribution Analyzer\<close>

lemma count_obj_map:
  assumes "map_of obj ''name'' = Some nm" and "map_of d (PStr ''N'') = Some n"
  shows "\<exists>d'. count_obj d obj = Inr d' \<and>
     (\<forall>k. map_of d' k =
        (if k = nm \<or> k = PStr ''N'' \<or> map_of d k \<noteq> None
         then Some ((case map_of d k of None \<Rightarrow> 0 | Some c \<Rightarrow> c) +
                    (if k = nm then 1 else 0) + (if k = PStr ''N'' then 1 else 0))
         else None)) \<and>
     (distinct (map fst d) \<longrightarrow> distinct (map fst d'))"
proof (cases "map_of d nm")
  case None
  then have nm_N: "nm \<noteq> PStr ''N''" using assms(2) by auto
  from None have fresh: "nm \<notin> fst ` set d" by (simp add: map_of_eq_None_iff)
  show ?thesis
    using assms None nm_N fresh
    by (auto simp: count_obj_def getitem_def setdefault_def update_conv' distinct_update
        split: option.splits)
next
  case (Some c)
  show ?thesis
    using assms Some
    by (auto simp: count_obj_def getitem_def setdefault_def update_conv' distinct_update
        split: option.splits)
qed


lemma count_objs_map:
  assumes "\<forall>obj \<in> set objs. map_of obj ''name'' \<noteq> None" and "map_of d (PStr ''N'') = Some n"
  shows "\<exists>d'. count_objs d objs = Inr d' \<and>
     (\<forall>k. map_of d' k =
        (if Some k \<in> set (map (\<lambda>obj. map_of obj ''name'') objs) \<or> map_of d k \<noteq> None
         then Some ((case map_of d k of None \<Rightarrow> 0 | Some c \<Rightarrow> c) +
                    int (count_list (map (\<lambda>obj. map_of obj ''name'') objs) (Some k)) +
                    (if k = PStr ''N'' then int (length objs) else 0))
         else None)) \<and>
     (distinct (map fst d) \<longrightarrow> distinct (map fst d'))"
  using assms
proof (induction objs arbitrary: d n)
  case Nil
  then show ?case by (auto split: option.splits)
next
  case (Cons obj objs)
  from Cons.prems(1) obtain nm where nm: "map_of obj ''name'' = Some nm" by auto
  from count_obj_map [OF nm Cons.prems(2)] obtain d1 where
    d1: "count_obj d obj = Inr d1" and
    m1: "\<And>k. map_of d1 k =
        (if k = nm \<or> k = PStr ''N'' \<or> map_of d k \<noteq> None
         then Some ((case map_of d k of None \<Rightarrow> 0 | Some c \<Rightarrow> c) +
                    (if k = nm then 1 else 0) + (if k = PStr ''N'' then 1 else 0))
         else None)" and
    dist1: "distinct (map fst d) \<longrightarrow> distinct (map fst d1)"
    by blast
  from m1 [of "PStr ''N''"] obtain n1 where n1: "map_of d1 (PStr ''N'') = Some n1" by simp
  from Cons.prems(1) have rest: "\<forall>obj \<in> set objs. map_of obj ''name'' \<noteq> None" by simp
  from Cons.IH [OF rest n1] obtain d' where
    d': "count_objs d1 objs = Inr d'" and
    m': "\<And>k. map_of d' k =
        (if Some k \<in> set (map (\<lambda>obj. map_of obj ''name'') objs) \<or> map_of d1 k \<noteq> None
         then Some ((case map_of d1 k of None \<Rightarrow> 0 | Some c \<Rightarrow> c) +
                    int (count_list (map (\<lambda>obj. map_of obj ''name'') objs) (Some k)) +
                    (if k = PStr ''N'' then int (length objs) else 0))
         else None)" and
    dist': "distinct (map fst d1) \<longrightarrow> distinct (map fst d')"
    by blast
  have "count_objs d (obj # objs) = Inr d'" using d1 d' by simp
  moreover have "map_of d' k =
        (if Some k \<in> set (map (\<lambda>obj. map_of obj ''name'') (obj # objs)) \<or> map_of d k \<noteq> None
         then Some ((case map_of d k of None \<Rightarrow> 0 | Some c \<Rightarrow> c) +
                    int (count_list (map (\<lambda>obj. map_of obj ''name'') (obj # objs)) (Some k)) +
                    (if k = PStr ''N'' then int (length (obj # objs)) else 0))
         else None)" for k
    unfolding m' m1 using nm Cons.prems(2)
    by (auto split: option.splits)
  ultimately show ?case using dist1 dist' by blast
qed

lemma count_objs_append:
  "count_objs d (xs @ ys) = bind_err (count_objs d xs) (\<lambda>d'. count_objs d' ys)"
  by (induction xs arbitrary: d) (auto simp: bind_err_def split: sum.splits)

lemma count_annos_concat: "count_annos d annos = count_objs d (concat (map object annos))"
  by (induction annos arbitrary: d) (auto simp: count_objs_append bind_err_def split: sum.splits)

lemma box_names_concat:
  "box_names annos = map (\<lambda>obj. map_of obj ''name'') (concat (map object annos))"
  by (simp add: box_names_def map_concat comp_def)

lemma map_err_Inr:
  "map_err f xs = Inr ys \<Longrightarrow> list_all2 (\<lambda>x y. f x = Inr y) xs ys"
  by (induction xs arbitrary: ys) (auto simp: bind_err_Inr)

lemma collect_success:
  "collect rs = ([], ys) \<Longrightarrow> y \<in> set ys \<Longrightarrow> \<exists>zs. Inr zs \<in> set rs \<and> y \<in> set zs"
proof (induction rs arbitrary: ys)
  case Nil
  then show ?case by simp
next
  case (Cons r rs)
  obtain errs ys' where c: "collect rs = (errs, ys')" by (cases "collect rs")
  show ?case
  proof (cases r)
    case (Inl e)
    with Cons.prems c show ?thesis by simp
  next
    case (Inr zs)
    with Cons.prems c have e: "errs = []" and ys: "ys = zs @ ys'" by simp_all
    from Cons.prems(2) ys have "y \<in> set zs \<or> y \<in> set ys'" by simp
    then show ?thesis
    proof
      assume "y \<in> set zs"
      with Inr show ?thesis by auto
    next
      assume "y \<in> set ys'"
      with Cons.IH [of ys'] c e show ?thesis by auto
    qed
  qed
qed

lemma pool_map_Inr:
  assumes "pool_map fs f xs = Inr ys" and "y \<in> set ys"
  shows "\<exists>x. f x = Inr y"
proof -
  let ?rs = "map (map_err f) (chunks (chunksize (length xs) (cpu_count fs)) xs)"
  from assms(1) have "collect ?rs = ([], ys)"
    by (auto simp: pool_map_def split: if_splits prod.splits list.splits)
  from collect_success [OF this assms(2)] obtain zs where
    zs: "Inr zs \<in> set ?rs" "y \<in> set zs" by blast
  from zs(1) obtain c where "Inr zs = map_err f c" by auto
  then have "map_err f c = Inr zs" by simp
  from list_all2_right_elem [OF map_err_Inr [OF this] zs(2)] show ?thesis by blast
qed

lemma chunks_concat: "0 < k \<Longrightarrow> concat (chunks k xs) = xs"
proof (induction k xs rule: chunks.induct)
  case (1 k xs)
  show ?case
  proof (cases "xs = []")
    case True
    then show ?thesis by (subst chunks.simps) simp
  next
    case False
    with 1 show ?thesis by (subst chunks.simps) simp
  qed
qed

lemma chunksize_pos:
  assumes "0 < n" and "0 < procs"
  shows "0 < chunksize n procs"
proof (cases "n mod (procs * 4) = 0")
  case True
  then have "procs * 4 dvd n" by (simp add: dvd_eq_mod_eq_0)
  with assms(1) have "procs * 4 \<le> n" by (intro dvd_imp_le)
  with assms(2) have "0 < n div (procs * 4)" by (simp add: div_greater_zero_iff)
  with True show ?thesis by (simp add: chunksize_def)
next
  case False
  then show ?thesis by (simp add: chunksize_def)
qed

lemma map_err_append:
  "map_err f (xs @ ys) =
     bind_err (map_err f xs) (\<lambda>us. bind_err (map_err f ys) (\<lambda>vs. Inr (us @ vs)))"
  by (induction xs) (auto simp: bind_err_def split: sum.splits)

lemma collect_concat:
  "collect (map (map_err f) cs) = ([], ys) \<Longrightarrow> map_err f (concat cs) = Inr ys"
proof (induction cs arbitrary: ys)
  case Nil
  then show ?case by simp
next
  case (Cons c cs)
  obtain errs ys' where r: "collect (map (map_err f) cs) = (errs, ys')"
    by (cases "collect (map (map_err f) cs)")
  show ?case
  proof (cases "map_err f c")
    case (Inl e)
    with Cons.prems r show ?thesis by simp
  next
    case (Inr zs)
    with Cons.prems r have "errs = []" "ys = zs @ ys'" by simp_all
    with Cons.IH [of ys'] r Inr show ?thesis by (simp add: map_err_append)
  qed
qed

text \<open>When no chunk fails, the results are those of the items, in the order of the list.\<close>

lemma pool_map_in_order:
  assumes "pool_map fs f xs = Inr ys"
  shows "map_err f xs = Inr ys"
proof -
  let ?k = "chunksize (length xs) (cpu_count fs)"
  from assms have p: "0 < cpu_count fs" and
    c: "collect (map (map_err f) (chunks ?k xs)) = ([], ys)"
    by (auto simp: pool_map_def split: if_splits prod.splits list.splits)
  show ?thesis
  proof (cases "xs = []")
    case True
    with c show ?thesis by (subst (asm) chunks.simps) simp
  next
    case False
    with p have "0 < ?k" by (intro chunksize_pos) simp_all
    then have "concat (chunks ?k xs) = xs" by (rule chunks_concat)
    with collect_concat [OF c] show ?thesis by simp
  qed
qed

lemma parse_annos_object_names:
  assumes "parse_annos fs folder = Inr annos"
  shows "\<forall>obj \<in> set (concat (map object annos)). map_of obj ''name'' \<noteq> None"
proof
  fix obj assume "obj \<in> set (concat (map object annos))"
  then obtain a where a: "a \<in> set annos" "obj \<in> set (object a)" by auto
  from assms obtain names where
    "pool_map fs (parse_anno fs) (map (join folder) names) = Inr annos"
    by (auto simp: parse_annos_def bind_err_Inr)
  from pool_map_Inr [OF this a(1)] obtain p where "parse_anno fs p = Inr a" by auto
  from parse_anno_object_names [OF this] a(2) show "map_of obj ''name'' \<noteq> None" by blast
qed

lemma distribution_Inr:
  assumes "distribution fs folder verbose = Inr d" and "parse_annos fs folder = Inr annos"
  shows "count_objs [(PStr ''N'', 0)] (concat (map object annos)) = Inr d"
  using assms by (auto simp: distribution_def bind_err_Inr count_annos_concat)


lemma example_distribution: "distribution example_fs ''annos'' False =
  Inr [(PStr ''N'', 3), (PStr ''dog'', 1), (PStr ''unicorn'', 1), (PStr ''cat'', 1)]"
  by code_simp

lemma example_parse_annos: "parse_annos example_fs ''annos'' = Inr [img1_anno]"
  by code_simp

lemma distribution_entries:
  assumes "distribution fs folder verbose = Inr d" and "parse_annos fs folder = Inr annos"
  shows "map_of d (PStr ''N'') = Some (total_count annos + class_count annos (PStr ''N''))"
    and "\<forall>nm. nm \<noteq> PStr ''N'' \<longrightarrow>
        map_of d nm = (if Some nm \<in> set (box_names annos) then Some (class_count annos nm)
                       else None)"
    and "distinct (map fst d)"
proof -
  let ?objs = "concat (map object annos)"
  have n0: "map_of [(PStr ''N'', 0::int)] (PStr ''N'') = Some 0" by simp
  from count_objs_map [OF parse_annos_object_names [OF assms(2)] n0]
    distribution_Inr [OF assms]
  have m: "\<And>k. map_of d k =
        (if Some k \<in> set (box_names annos) \<or> map_of [(PStr ''N'', 0::int)] k \<noteq> None
         then Some ((case map_of [(PStr ''N'', 0::int)] k of None \<Rightarrow> 0 | Some c \<Rightarrow> c) +
                    int (count_list (box_names annos) (Some k)) +
                    (if k = PStr ''N'' then int (length ?objs) else 0))
         else None)"
    and dist: "distinct (map fst d)"
    unfolding box_names_concat by auto
  have len: "int (length ?objs) = total_count annos"
    by (simp add: total_count_def box_names_concat)
  show "map_of d (PStr ''N'') = Some (total_count annos + class_count annos (PStr ''N''))"
    using m [of "PStr ''N''"] len by (simp add: class_count_def)
  show "\<forall>nm. nm \<noteq> PStr ''N'' \<longrightarrow>
        map_of d nm = (if Some nm \<in> set (box_names annos) then Some (class_count annos nm)
                       else None)"
    using m by (simp add: class_count_def)
  show "distinct (map fst d)" by (rule dist)
qed

text \<open>
  When no box has the class name \<open>N\<close>, the dictionary is what the specification
  describes: the total under \<open>N\<close> and the number of occurrences under each class name.
\<close>

lemma distribution_without_class_N:
  assumes "distribution fs folder verbose = Inr d" and "parse_annos fs folder = Inr annos"
    and "Some (PStr ''N'') \<notin> set (box_names annos)"
  shows "map_of d (PStr ''N'') = Some (total_count annos)"
    and "\<forall>nm. nm \<noteq> PStr ''N'' \<longrightarrow>
        map_of d nm = (if Some nm \<in> set (box_names annos) then Some (class_count annos nm)
                       else None)"
  using distribution_entries [OF assms(1,2)] assms(3)
  by (simp_all add: class_count_def count_list_0_iff)

text \<open>
  C10.  Whatever \<open>distribution\<close> returns, its entry at the key \<open>N\<close> is the total number
  of boxes plus the number of boxes whose class name is \<open>N\<close>, so it is the total exactly
  when no box has the class name \<open>N\<close>; every other class name that occurs has its
  number of occurrences as its entry, a name that does not occur has none, and no key
  occurs twice, so a class named \<open>N\<close> has no entry of its own.
\<close>

theorem distribution_total_shares_key_N:
  assumes "distribution fs folder verbose = Inr d" and "parse_annos fs folder = Inr annos"
  shows "map_of d (PStr ''N'') = Some (total_count annos + class_count annos (PStr ''N'')) \<and>
     (map_of d (PStr ''N'') = Some (total_count annos) \<longleftrightarrow>
        Some (PStr ''N'') \<notin> set (box_names annos)) \<and>
     (\<forall>nm. nm \<noteq> PStr ''N'' \<longrightarrow>
        map_of d nm = (if Some nm \<in> set (box_names annos) then Some (class_count annos nm)
                       else None)) \<and>
     distinct (map fst d)"
proof -
  note e = distribution_entries [OF assms]
  have "map_of d (PStr ''N'') = Some (total_count annos) \<longleftrightarrow>
        Some (PStr ''N'') \<notin> set (box_names annos)"
    unfolding e(1) by (simp add: class_count_def count_list_0_iff)
  with e show ?thesis by blast
qed

text \<open>
  The folder \<open>pets\<close>, whose single annotation has a single box, of class \<open>N\<close>: the
  entry at \<open>N\<close> is 2, the total 1 plus the one box named \<open>N\<close>.
\<close>

theorem distribution_total_shares_key_N_witness:
  "distribution n_fs ''pets'' False = Inr [(PStr ''N'', 2)] \<and>
   box_names [n_anno] = [Some (PStr ''N'')] \<and>
   map_of [(PStr ''N'', 2::int)] (PStr ''N'') =
     Some (total_count [n_anno] + class_count [n_anno] (PStr ''N''))"
proof -
  have d: "distribution n_fs ''pets'' False = Inr [(PStr ''N'', 2)]" by code_simp
  have p: "parse_annos n_fs ''pets'' = Inr [n_anno]" by code_simp
  have b: "box_names [n_anno] = [Some (PStr ''N'')]" by code_simp
  from distribution_total_shares_key_N [OF d p] d b show ?thesis by blast
qed

text \<open>
  A folder whose annotations have no box: the dictionary has the one entry \<open>N: 0\<close>;
  in \<open>verbose\<close> mode the report divides by that 0.
\<close>

lemma distribution_no_objects:
  assumes "parse_annos fs folder = Inr annos" and "\<forall>a \<in> set annos. object a = []"
  shows "distribution fs folder False = Inr [(PStr ''N'', 0)]"
    and "distribution fs folder True = Inl ZeroDivisionError"
proof -
  from assms(2) have e: "concat (map object annos) = []" by simp
  have c: "count_annos [(PStr ''N'', 0)] annos = Inr [(PStr ''N'', 0)]"
    unfolding count_annos_concat e by simp
  show "distribution fs folder False = Inr [(PStr ''N'', 0)]"
    by (simp add: distribution_def assms(1) c)
  show "distribution fs folder True = Inl ZeroDivisionError"
    by (simp add: distribution_def assms(1) c getitem_def)
qed

text \<open>
  C7.  On the folder \<open>pets\<close>, whose single annotation has a single box, of class
  \<open>N\<close>, \<open>distribution\<close> returns the one entry \<open>N: 2\<close>: the class \<open>N\<close> occurs
  once and the total number of boxes is 1, and neither is what the dictionary holds.
\<close>

theorem distribution_counts_class_N_twice:
  "parse_annos n_fs ''pets'' = Inr [n_anno] \<and>
   class_count [n_anno] (PStr ''N'') = 1 \<and> total_count [n_anno] = 1 \<and>
   distribution n_fs ''pets'' False = Inr [(PStr ''N'', 2)]"
  by code_simp

section \<open>Properties of the Annotation Parser\<close>

lemma text_of_text_val [simp]: "text_of (text_val t) = t"
  by (cases t) (simp_all add: text_of_def text_val_def)

lemma converted_text_val: "int_float t = Inr i \<Longrightarrow> converted (text_val t) (PInt i)"
  by (simp add: converted_def)

lemma list_all2_update:
  assumes "list_all2 (\<lambda>e e'. fst e' = fst e \<and> P e e') xs ys" and "P (k, v) (k, v')"
  shows "list_all2 (\<lambda>e e'. fst e' = fst e \<and> P e e') (AList.update k v xs) (AList.update k v' ys)"
  using assms(1)
proof (induction rule: list_all2_induct)
  case Nil
  then show ?case using assms(2) by simp
next
  case (Cons x xs y ys)
  then show ?case using assms(2) by (cases x; cases y) auto
qed

lemma convert_items_rel:
  assumes "convert_items d items = Inr d'"
    and "list_all2 (\<lambda>e e'. fst e' = fst e \<and> P e e') d0 d"
    and "set (map tag items) \<subseteq> S"
    and "\<And>k t i. k \<in> S \<Longrightarrow> int_float t = Inr i \<Longrightarrow> P (k, text_val t) (k, PInt i)"
  shows "list_all2 (\<lambda>e e'. fst e' = fst e \<and> P e e') (raw_items d0 items) d'"
  using assms(1,2,3)
proof (induction items arbitrary: d d0)
  case Nil
  then show ?case by simp
next
  case (Cons item rest)
  from Cons.prems(1) obtain i where
    i: "int_float (etext item) = Inr i" and
    r: "convert_items (AList.update (tag item) (PInt i) d) rest = Inr d'"
    by (auto simp: bind_err_Inr)
  from Cons.prems(3) have S: "tag item \<in> S" "set (map tag rest) \<subseteq> S" by simp_all
  have "list_all2 (\<lambda>e e'. fst e' = fst e \<and> P e e')
          (AList.update (tag item) (text_val (etext item)) d0)
          (AList.update (tag item) (PInt i) d)"
    by (rule list_all2_update [OF Cons.prems(2) assms(4) [OF S(1) i]])
  from Cons.IH [OF r this S(2)] show ?case by simp
qed

lemma convert_items_size:
  assumes "convert_items [] items = Inr d'"
  shows "list_all2 conv_entry (raw_items [] items) d'"
proof -
  have "list_all2 (\<lambda>e e'. fst e' = fst e \<and> converted (snd e) (snd e')) (raw_items [] items) d'"
    by (rule convert_items_rel [OF assms, where S = UNIV]) (simp_all add: converted_text_val)
  then show ?thesis by (simp add: conv_entry_def [abs_def])
qed

lemma convert_items_box:
  assumes "convert_items [(''name'', v)] items = Inr d'" and "''name'' \<notin> set (map tag items)"
  shows "list_all2 box_entry (raw_items [(''name'', v)] items) d'"
proof -
  have step: "box_entry (k, text_val t) (k, PInt i)"
    if "k \<in> set (map tag items)" "int_float t = Inr i" for k t i
  proof -
    from that(1) assms(2) have "k \<noteq> ''name''" by blast
    with that(2) show ?thesis by (simp add: box_entry_def conv_entry_def converted_text_val)
  qed
  have "list_all2 (\<lambda>e e'. fst e' = fst e \<and> box_entry e e') (raw_items [(''name'', v)] items) d'"
    by (rule convert_items_rel [OF assms(1), where S = "set (map tag items)"])
      (simp_all add: step, simp add: box_entry_def)
  then show ?thesis by (rule list_all2_mono) simp
qed

lemma convert_items_untouched:
  "convert_items d items = Inr d' \<Longrightarrow> k \<notin> set (map tag items) \<Longrightarrow> map_of d' k = map_of d k"
proof (induction items arbitrary: d)
  case Nil
  then show ?case by simp
next
  case (Cons item rest)
  from Cons.prems(1) obtain i where
    r: "convert_items (AList.update (tag item) (PInt i) d) rest = Inr d'"
    by (auto simp: bind_err_Inr)
  from Cons.IH [OF r] Cons.prems(2) show ?case by (simp add: update_conv')
qed

lemma raw_items_untouched:
  "k \<notin> set (map tag items) \<Longrightarrow> map_of (raw_items d items) k = map_of d k"
  by (induction items arbitrary: d) (simp_all add: update_conv')


lemma parse_object_rel:
  assumes "parse_object obj = Inr da"
    and "case find_child ''bndbox'' obj of None \<Rightarrow> True
         | Some bbox \<Rightarrow> ''name'' \<notin> set (map tag (children bbox))"
  shows "\<exists>db. parser_parse_object obj = Inr db \<and> list_all2 box_entry db da \<and>
              map_of db ''name'' = map_of da ''name''"
proof -
  from assms(1) obtain n bbox where
    n: "find_child ''name'' obj = Some n" and b: "find_child ''bndbox'' obj = Some bbox" and
    c: "convert_items [(''name'', text_val (etext n))] (children bbox) = Inr da"
    by (auto simp: parse_object_def split: option.splits)
  from assms(2) b have plain: "''name'' \<notin> set (map tag (children bbox))" by simp
  have "parser_parse_object obj = Inr (raw_items [(''name'', text_val (etext n))] (children bbox))"
    using n b by (simp add: parser_parse_object_def)
  moreover note convert_items_box [OF c plain]
  moreover have "map_of (raw_items [(''name'', text_val (etext n))] (children bbox)) ''name'' =
                 map_of da ''name''"
    using convert_items_untouched [OF c plain] raw_items_untouched [OF plain] by simp
  ultimately show ?thesis by blast
qed

lemma parse_objects_rel:
  assumes "parse_objects objs = Inr das"
    and "list_all (\<lambda>obj. case find_child ''bndbox'' obj of None \<Rightarrow> True
                     | Some bbox \<Rightarrow> ''name'' \<notin> set (map tag (children bbox))) objs"
  shows "\<exists>dbs. parser_parse_objects objs = Inr dbs \<and> list_all2 (list_all2 box_entry) dbs das \<and>
               map (\<lambda>d. map_of d ''name'') dbs = map (\<lambda>d. map_of d ''name'') das"
  using assms
proof (induction objs arbitrary: das)
  case Nil
  then show ?case by simp
next
  case (Cons obj objs)
  from Cons.prems(1) obtain da rest where
    da: "parse_object obj = Inr da" and rest: "parse_objects objs = Inr rest" and
    das: "das = da # rest"
    by (auto simp: bind_err_Inr)
  from parse_object_rel [OF da] Cons.prems(2) obtain db where
    db: "parser_parse_object obj = Inr db" "list_all2 box_entry db da"
        "map_of db ''name'' = map_of da ''name''"
    by auto
  from Cons.IH [OF rest] Cons.prems(2) obtain dbs where
    dbs: "parser_parse_objects objs = Inr dbs" "list_all2 (list_all2 box_entry) dbs rest"
         "map (\<lambda>d. map_of d ''name'') dbs = map (\<lambda>d. map_of d ''name'') rest"
    by auto
  have "parser_parse_objects (obj # objs) = Inr (db # dbs)" using db(1) dbs(1) by simp
  with db dbs das show ?case by simp
qed

lemma example_parser_parse_anno: "parser_parse_anno example_fs ''annos/img1.xml'' = Inr img1_raw"
  by code_simp

lemma example_etree: "etree example_fs ''annos/img1.xml'' = Inr img1"
  by code_simp

text \<open>
  C9.  On an annotation that \<open>parse_anno\<close> of \<open>analysis.py\<close> parses, and in which no
  \<open>bndbox\<close> has a child tagged \<open>name\<close>, \<open>parse_anno\<close> of \<open>parser.py\<close> succeeds too;
  the two results have the same \<open>filename\<close> and the same \<open>name\<close> of every box; the
  first has the \<open>annoname\<close> entry and the second has not; every \<open>size\<close> entry and every
  other box entry of the first is \<open>int(float(text))\<close> of the raw text that the second
  holds under the same key; and the two results differ.
\<close>

theorem parse_anno_variants:
  assumes "parse_anno fs path_anno = Inr a" and "etree fs path_anno = Inr tree"
    and "plain_boxes tree"
  shows "\<exists>b. parser_parse_anno fs path_anno = Inr b \<and>
     filename b = filename a \<and>
     map (\<lambda>d. map_of d ''name'') (object b) = map (\<lambda>d. map_of d ''name'') (object a) \<and>
     annoname a = Some (basename path_anno) \<and> annoname b = None \<and>
     list_all2 conv_entry (size_dict b) (size_dict a) \<and>
     list_all2 (list_all2 box_entry) (object b) (object a) \<and>
     parse_anno fs path_anno \<noteq> parser_parse_anno fs path_anno"
proof -
  from parse_anno_Inr [OF assms(1)] assms(2) obtain fn size_el where
    fn: "find_child ''filename'' tree = Some fn" and
    sz: "find_child ''size'' tree = Some size_el" and
    cs: "convert_items [] (children size_el) = Inr (size_dict a)" and
    os: "parse_objects (findall ''object'' tree) = Inr (object a)" and
    an: "annoname a = Some (basename path_anno)" and
    fl: "filename a = text_val (etext fn)"
    by auto
  from parse_objects_rel [OF os] assms(3) obtain dbs where
    dbs: "parser_parse_objects (findall ''object'' tree) = Inr dbs"
         "list_all2 (list_all2 box_entry) dbs (object a)"
         "map (\<lambda>d. map_of d ''name'') dbs = map (\<lambda>d. map_of d ''name'') (object a)"
    by (auto simp: plain_boxes_def)
  let ?b = "\<lparr>annoname = None, filename = text_val (etext fn),
             size_dict = raw_items [] (children size_el), object = dbs\<rparr>"
  have b: "parser_parse_anno fs path_anno = Inr ?b"
    using assms(2) fn sz dbs(1) by (simp add: parser_parse_anno_def)
  have "a \<noteq> ?b" using an by auto
  then have "parse_anno fs path_anno \<noteq> parser_parse_anno fs path_anno"
    using assms(1) b by simp
  with b fl an dbs convert_items_size [OF cs] show ?thesis by simp
qed

text \<open>The example annotation, parsed by both.\<close>

theorem parse_anno_variants_witness:
  "parse_anno example_fs ''annos/img1.xml'' = Inr img1_anno \<and>
   parser_parse_anno example_fs ''annos/img1.xml'' = Inr img1_raw \<and>
   plain_boxes img1 \<and>
   (\<exists>b. parser_parse_anno example_fs ''annos/img1.xml'' = Inr b \<and>
     filename b = filename img1_anno \<and>
     map (\<lambda>d. map_of d ''name'') (object b) = map (\<lambda>d. map_of d ''name'') (object img1_anno) \<and>
     annoname img1_anno = Some (basename ''annos/img1.xml'') \<and> annoname b = None \<and>
     list_all2 conv_entry (size_dict b) (size_dict img1_anno) \<and>
     list_all2 (list_all2 box_entry) (object b) (object img1_anno) \<and>
     parse_anno example_fs ''annos/img1.xml'' \<noteq> parser_parse_anno example_fs ''annos/img1.xml'')"
proof -
  have p: "plain_boxes img1" by code_simp
  from parse_anno_variants [OF example_parse_anno example_etree p]
    example_parse_anno example_parser_parse_anno p
  show ?thesis by blast
qed

subsection \<open>Numeric fields and failures\<close>

lemma py_int_errors: "py_int x = Inl e \<Longrightarrow> e = ValueError \<or> e = OverflowError"
  by (cases x) (auto simp: py_int_def Let_def split: prod.splits)

lemma py_float_errors: "py_float (Some s) = Inl e \<Longrightarrow> e = ValueError"
  by (auto simp: py_float_def split: option.splits prod.splits)

lemma int_float_errors:
  assumes "int_float t = Inl e"
  shows "(t = None \<and> e = TypeError) \<or> (t \<noteq> None \<and> (e = ValueError \<or> e = OverflowError))"
proof (cases t)
  case None
  with assms show ?thesis by (simp add: int_float_def py_float_def)
next
  case (Some s)
  with assms show ?thesis
    by (auto simp: int_float_def split: sum.splits dest: py_float_errors py_int_errors)
qed

lemma convert_items_Inl:
  "convert_items d items = Inl e \<Longrightarrow> \<exists>c \<in> set items. int_float (etext c) = Inl e"
proof (induction items arbitrary: d)
  case Nil
  then show ?case by simp
next
  case (Cons item rest)
  then show ?case by (cases "int_float (etext item)") auto
qed

lemma convert_items_fails:
  "c \<in> set items \<Longrightarrow> int_float (etext c) = Inl e \<Longrightarrow> \<exists>e'. convert_items d items = Inl e'"
proof (induction items arbitrary: d)
  case Nil
  then show ?case by simp
next
  case (Cons item rest)
  then show ?case by (cases "int_float (etext item)") auto
qed

lemma convert_items_errors:
  assumes "convert_items d items = Inl e"
  shows "e \<in> {TypeError, ValueError, OverflowError}"
  using convert_items_Inl [OF assms] int_float_errors by blast

lemma parse_object_errors:
  assumes "parse_object obj = Inl e"
  shows "e \<in> {AttributeError, TypeError, ValueError, OverflowError}"
  using assms convert_items_errors
  by (fastforce simp: parse_object_def split: option.splits)

lemma parse_objects_errors:
  "parse_objects objs = Inl e \<Longrightarrow> e \<in> {AttributeError, TypeError, ValueError, OverflowError}"
proof (induction objs)
  case Nil
  then show ?case by simp
next
  case (Cons obj objs)
  show ?case
  proof (cases "parse_object obj")
    case (Inl e')
    with Cons.prems parse_object_errors [of obj e'] show ?thesis by simp
  next
    case (Inr d)
    with Cons show ?thesis by (cases "parse_objects objs") auto
  qed
qed

lemma parse_anno_errors:
  assumes "etree fs path_anno = Inr tree" and "parse_anno fs path_anno = Inl e"
  shows "e \<in> {AttributeError, TypeError, ValueError, OverflowError}"
proof (cases "find_child ''filename'' tree")
  case None
  with assms show ?thesis by (simp add: parse_anno_def)
next
  case fn: (Some fn)
  show ?thesis
  proof (cases "find_child ''size'' tree")
    case None
    with assms fn show ?thesis by (simp add: parse_anno_def)
  next
    case sz: (Some size_el)
    show ?thesis
    proof (cases "convert_items [] (children size_el)")
      case (Inl e')
      with assms fn sz convert_items_errors [of "[]" "children size_el" e'] show ?thesis
        by (simp add: parse_anno_def)
    next
      case (Inr d)
      with assms fn sz parse_objects_errors [of "findall ''object'' tree" e] show ?thesis
        by (cases "parse_objects (findall ''object'' tree)") (simp_all add: parse_anno_def)
    qed
  qed
qed

lemma parse_anno_size_fails:
  assumes "etree fs path_anno = Inr tree" and "find_child ''filename'' tree = Some fn"
    and "find_child ''size'' tree = Some size_el"
    and "c \<in> set (children size_el)" and "int_float (etext c) = Inl e"
  shows "\<exists>e'. parse_anno fs path_anno = Inl e' \<and> e' \<in> {TypeError, ValueError, OverflowError}"
proof -
  from convert_items_fails [OF assms(4,5)] obtain e' where
    e': "convert_items [] (children size_el) = Inl e'" by blast
  with assms(1-3) have "parse_anno fs path_anno = Inl e'" by (simp add: parse_anno_def)
  with convert_items_errors [OF e'] show ?thesis by blast
qed

lemma int_of_text_Some: "int_of_text t = Some i \<longleftrightarrow> int_float t = Inr i"
  by (simp add: int_of_text_def split: sum.splits)

lemma int_of_text_None: "int_of_text t = None \<longleftrightarrow> (\<exists>e. int_float t = Inl e)"
  by (simp add: int_of_text_def split: sum.splits)

lemma stored_Nil [simp]: "stored [] d k = map_of d k"
  by (simp add: stored_def)

lemma find_append:
  "List.find P (xs @ ys) = (case List.find P xs of None \<Rightarrow> List.find P ys | Some x \<Rightarrow> Some x)"
  by (induction xs) simp_all

lemma stored_Cons:
  "stored (item # rest) d k =
     stored rest (AList.update (tag item) (PInt i) d) k"
  if "int_float (etext item) = Inr i"
  using that
  by (auto simp: stored_def find_append update_conv' int_of_text_def
      split: option.splits)

lemma convert_items_stored:
  "convert_items d items = Inr d' \<Longrightarrow> map_of d' k = stored items d k"
proof (induction items arbitrary: d)
  case Nil
  then show ?case by simp
next
  case (Cons item rest)
  from Cons.prems obtain i where
    i: "int_float (etext item) = Inr i" and
    r: "convert_items (AList.update (tag item) (PInt i) d) rest = Inr d'"
    by (auto simp: bind_err_Inr)
  from Cons.IH [OF r] stored_Cons [OF i] show ?case by simp
qed

lemma convert_items_ok_iff:
  "(\<exists>d'. convert_items d items = Inr d') \<longleftrightarrow> (\<forall>c \<in> set items. int_of_text (etext c) \<noteq> None)"
proof (induction items arbitrary: d)
  case Nil
  then show ?case by simp
next
  case (Cons item rest)
  show ?case
  proof (cases "int_float (etext item)")
    case (Inl e)
    then show ?thesis by (simp add: int_of_text_def)
  next
    case (Inr i)
    with Cons.IH [of "AList.update (tag item) (PInt i) d"] show ?thesis
      by (simp add: int_of_text_def)
  qed
qed


lemma int_float_cause:
  assumes "int_float (etext c) = Inl e"
  shows "(e = TypeError \<and> etext c = None) \<or>
         (\<exists>s. etext c = Some s \<and> int_float (Some s) = Inl e \<and> (e = ValueError \<or> e = OverflowError))"
  using int_float_errors [OF assms] assms by (cases "etext c") auto

lemma parse_object_ok_iff:
  "(\<exists>d. parse_object obj = Inr d) \<longleftrightarrow>
     find_child ''name'' obj \<noteq> None \<and>
     (\<exists>bbox. find_child ''bndbox'' obj = Some bbox \<and>
        (\<forall>c \<in> set (children bbox). int_of_text (etext c) \<noteq> None))"
proof (cases "find_child ''name'' obj")
  case None
  then show ?thesis by (simp add: parse_object_def)
next
  case n: (Some n)
  show ?thesis
  proof (cases "find_child ''bndbox'' obj")
    case None
    with n show ?thesis by (simp add: parse_object_def)
  next
    case (Some bbox)
    with n convert_items_ok_iff [of "[(''name'', text_val (etext n))]" "children bbox"]
    show ?thesis by (simp add: parse_object_def)
  qed
qed

lemma parse_object_cause:
  assumes "parse_object obj = Inl e"
  shows "(e = AttributeError \<and> find_child ''name'' obj = None) \<or>
         (e = TypeError \<and> find_child ''bndbox'' obj = None) \<or>
         (\<exists>bbox c. find_child ''bndbox'' obj = Some bbox \<and> c \<in> set (children bbox) \<and>
            int_float (etext c) = Inl e)"
proof (cases "find_child ''name'' obj")
  case None
  with assms show ?thesis by (simp add: parse_object_def)
next
  case n: (Some n)
  show ?thesis
  proof (cases "find_child ''bndbox'' obj")
    case None
    with n assms show ?thesis by (simp add: parse_object_def)
  next
    case (Some bbox)
    with n assms have "convert_items [(''name'', text_val (etext n))] (children bbox) = Inl e"
      by (simp add: parse_object_def)
    from convert_items_Inl [OF this] Some show ?thesis by blast
  qed
qed

lemma parse_object_stored:
  assumes "parse_object obj = Inr d"
  shows "\<exists>n bbox. find_child ''name'' obj = Some n \<and> find_child ''bndbox'' obj = Some bbox \<and>
           (\<forall>k. map_of d k = stored (children bbox) [(''name'', text_val (etext n))] k)"
proof -
  from assms obtain n bbox where
    "find_child ''name'' obj = Some n" "find_child ''bndbox'' obj = Some bbox"
    "convert_items [(''name'', text_val (etext n))] (children bbox) = Inr d"
    by (auto simp: parse_object_def split: option.splits)
  with convert_items_stored show ?thesis by blast
qed

lemma parse_objects_Inr_iff:
  "(\<exists>ds. parse_objects objs = Inr ds) \<longleftrightarrow> (\<forall>obj \<in> set objs. \<exists>d. parse_object obj = Inr d)"
proof (induction objs)
  case Nil
  then show ?case by simp
next
  case (Cons obj objs)
  show ?case
  proof (cases "parse_object obj")
    case (Inl e)
    then show ?thesis by simp
  next
    case (Inr d)
    with Cons.IH show ?thesis by (cases "parse_objects objs") auto
  qed
qed

lemma parse_objects_Inl:
  "parse_objects objs = Inl e \<Longrightarrow> \<exists>obj \<in> set objs. parse_object obj = Inl e"
proof (induction objs)
  case Nil
  then show ?case by simp
next
  case (Cons obj objs)
  show ?case
  proof (cases "parse_object obj")
    case (Inl e')
    with Cons.prems show ?thesis by simp
  next
    case (Inr d)
    with Cons show ?thesis by (cases "parse_objects objs") auto
  qed
qed

lemma parse_objects_each:
  "parse_objects objs = Inr ds \<Longrightarrow> list_all2 (\<lambda>obj d. parse_object obj = Inr d) objs ds"
  by (induction objs arbitrary: ds) (auto simp: bind_err_Inr)

lemma numeric_fields_iff:
  "c \<in> set (numeric_fields tree) \<longleftrightarrow>
     (\<exists>size_el. find_child ''size'' tree = Some size_el \<and> c \<in> set (children size_el)) \<or>
     (\<exists>obj \<in> set (findall ''object'' tree). \<exists>bbox.
        find_child ''bndbox'' obj = Some bbox \<and> c \<in> set (children bbox))"
  by (auto simp: numeric_fields_def split: option.splits)


lemma int_float_1621: "int_float (Some ''1621.0'') = Inr 1621"
  by code_simp

lemma int_float_None: "int_float None = Inl TypeError"
  by (simp add: int_float_def py_float_def)

lemma parse_anno_ok_iff:
  assumes "etree fs path_anno = Inr tree"
  shows "(\<exists>a. parse_anno fs path_anno = Inr a) \<longleftrightarrow>
       find_child ''filename'' tree \<noteq> None \<and> find_child ''size'' tree \<noteq> None \<and>
       (\<forall>obj \<in> set (findall ''object'' tree).
          find_child ''name'' obj \<noteq> None \<and> find_child ''bndbox'' obj \<noteq> None) \<and>
       (\<forall>c \<in> set (numeric_fields tree). int_of_text (etext c) \<noteq> None)"
proof (cases "find_child ''filename'' tree")
  case None
  with assms show ?thesis by (simp add: parse_anno_def)
next
  case fn: (Some fn)
  show ?thesis
  proof (cases "find_child ''size'' tree")
    case None
    with assms fn show ?thesis by (simp add: parse_anno_def)
  next
    case sz: (Some size_el)
    have "(\<exists>a. parse_anno fs path_anno = Inr a) \<longleftrightarrow>
        (\<exists>d. convert_items [] (children size_el) = Inr d) \<and>
        (\<exists>ds. parse_objects (findall ''object'' tree) = Inr ds)"
      using assms fn sz by (auto simp: parse_anno_def bind_err_Inr)
    also have "\<dots> \<longleftrightarrow>
        (\<forall>c \<in> set (children size_el). int_of_text (etext c) \<noteq> None) \<and>
        (\<forall>obj \<in> set (findall ''object'' tree).
           find_child ''name'' obj \<noteq> None \<and>
           (\<exists>bbox. find_child ''bndbox'' obj = Some bbox \<and>
              (\<forall>c \<in> set (children bbox). int_of_text (etext c) \<noteq> None)))"
      unfolding convert_items_ok_iff parse_objects_Inr_iff parse_object_ok_iff ..
    also have "\<dots> \<longleftrightarrow>
       (\<forall>obj \<in> set (findall ''object'' tree).
          find_child ''name'' obj \<noteq> None \<and> find_child ''bndbox'' obj \<noteq> None) \<and>
       (\<forall>c \<in> set (numeric_fields tree). int_of_text (etext c) \<noteq> None)"
      (is "?A \<longleftrightarrow> ?B")
    proof
      assume A: ?A
      have "int_of_text (etext c) \<noteq> None" if "c \<in> set (numeric_fields tree)" for c
        using that A sz unfolding numeric_fields_iff by fastforce
      moreover have "find_child ''name'' obj \<noteq> None \<and> find_child ''bndbox'' obj \<noteq> None"
        if "obj \<in> set (findall ''object'' tree)" for obj
        using that A by fastforce
      ultimately show ?B by blast
    next
      assume B: ?B
      have "int_of_text (etext c) \<noteq> None" if "c \<in> set (children size_el)" for c
      proof -
        from that sz have "c \<in> set (numeric_fields tree)" unfolding numeric_fields_iff by blast
        with B show ?thesis by blast
      qed
      moreover have "find_child ''name'' obj \<noteq> None \<and>
           (\<exists>bbox. find_child ''bndbox'' obj = Some bbox \<and>
              (\<forall>c \<in> set (children bbox). int_of_text (etext c) \<noteq> None))"
        if obj: "obj \<in> set (findall ''object'' tree)" for obj
      proof -
        from B obj obtain bbox where
          b: "find_child ''name'' obj \<noteq> None" "find_child ''bndbox'' obj = Some bbox" by auto
        have "int_of_text (etext c) \<noteq> None" if "c \<in> set (children bbox)" for c
        proof -
          from that obj b(2) have "c \<in> set (numeric_fields tree)"
            unfolding numeric_fields_iff by blast
          with B show ?thesis by blast
        qed
        with b show ?thesis by blast
      qed
      ultimately show ?A by blast
    qed
    finally show ?thesis using fn sz by simp
  qed
qed

lemma parse_anno_values:
  assumes "etree fs path_anno = Inr tree" and "parse_anno fs path_anno = Inr a"
  shows "(\<exists>size_el. find_child ''size'' tree = Some size_el \<and>
            list_all2 conv_entry (raw_items [] (children size_el)) (size_dict a) \<and>
            (\<forall>k. map_of (size_dict a) k = stored (children size_el) [] k)) \<and>
         list_all2 (\<lambda>obj d. \<exists>n bbox.
              find_child ''name'' obj = Some n \<and> find_child ''bndbox'' obj = Some bbox \<and>
              (\<forall>k. map_of d k = stored (children bbox) [(''name'', text_val (etext n))] k))
           (findall ''object'' tree) (object a)"
proof -
  from parse_anno_Inr [OF assms(2)] assms(1) obtain size_el where
    sz: "find_child ''size'' tree = Some size_el" and
    cs: "convert_items [] (children size_el) = Inr (size_dict a)" and
    os: "parse_objects (findall ''object'' tree) = Inr (object a)"
    by auto
  have "list_all2 (\<lambda>obj d. \<exists>n bbox.
              find_child ''name'' obj = Some n \<and> find_child ''bndbox'' obj = Some bbox \<and>
              (\<forall>k. map_of d k = stored (children bbox) [(''name'', text_val (etext n))] k))
           (findall ''object'' tree) (object a)"
    by (rule list_all2_mono [OF parse_objects_each [OF os]]) (rule parse_object_stored)
  with sz convert_items_size [OF cs] convert_items_stored [OF cs] show ?thesis by blast
qed

lemma parse_anno_cause:
  assumes "etree fs path_anno = Inr tree" and "parse_anno fs path_anno = Inl e"
  shows "(e = AttributeError \<and>
            (find_child ''filename'' tree = None \<or>
             (\<exists>obj \<in> set (findall ''object'' tree). find_child ''name'' obj = None))) \<or>
         (e = TypeError \<and>
            (find_child ''size'' tree = None \<or>
             (\<exists>obj \<in> set (findall ''object'' tree). find_child ''bndbox'' obj = None) \<or>
             (\<exists>c \<in> set (numeric_fields tree). etext c = None))) \<or>
         (\<exists>c \<in> set (numeric_fields tree). \<exists>s. etext c = Some s \<and> int_float (Some s) = Inl e \<and>
            (e = ValueError \<or> e = OverflowError))"
proof (cases "find_child ''filename'' tree")
  case None
  with assms show ?thesis by (simp add: parse_anno_def)
next
  case fn: (Some fn)
  show ?thesis
  proof (cases "find_child ''size'' tree")
    case None
    with assms fn show ?thesis by (simp add: parse_anno_def)
  next
    case sz: (Some size_el)
    have field: ?thesis if "c \<in> set (numeric_fields tree)" "int_float (etext c) = Inl e" for c
      using int_float_cause [OF that(2)] that(1) by blast
    show ?thesis
    proof (cases "convert_items [] (children size_el)")
      case (Inl e')
      with assms fn sz have "e' = e" by (simp add: parse_anno_def)
      with convert_items_Inl [OF Inl] obtain c where
        c: "c \<in> set (children size_el)" "int_float (etext c) = Inl e" by blast
      from sz c(1) have "c \<in> set (numeric_fields tree)"
        unfolding numeric_fields_iff by blast
      from field [OF this c(2)] show ?thesis .
    next
      case (Inr d)
      with assms fn sz have "parse_objects (findall ''object'' tree) = Inl e"
        by (cases "parse_objects (findall ''object'' tree)") (simp_all add: parse_anno_def)
      from parse_objects_Inl [OF this] obtain obj where
        obj: "obj \<in> set (findall ''object'' tree)" "parse_object obj = Inl e" by blast
      from parse_object_cause [OF obj(2)] show ?thesis
      proof (elim disjE exE conjE)
        assume "e = AttributeError" "find_child ''name'' obj = None"
        with obj(1) show ?thesis by blast
      next
        assume "e = TypeError" "find_child ''bndbox'' obj = None"
        with obj(1) show ?thesis by blast
      next
        fix bbox c
        assume c: "find_child ''bndbox'' obj = Some bbox" "c \<in> set (children bbox)"
          "int_float (etext c) = Inl e"
        from obj(1) c(1,2) have "c \<in> set (numeric_fields tree)"
          unfolding numeric_fields_iff by blast
        from field [OF this c(3)] show ?thesis .
      qed
    qed
  qed
qed

text \<open>
  C4, as amended.  For an annotation file that is well-formed XML:
  \<^item> \<open>parse_anno\<close> returns exactly when \<open>filename\<close> and \<open>size\<close> are present, every
    \<open>object\<close> has a \<open>name\<close> and a \<open>bndbox\<close>, and the text of every child of
    \<open>size\<close> and of every \<open>bndbox\<close> converts under \<open>int(float(text))\<close>; no particular
    child, such as \<open>width\<close>, has to be present;
  \<^item> when it returns, the \<open>size\<close> dictionary and the dictionary of each box hold, under
    the tag of each such child, \<open>int(float(text))\<close> of its text (of the last child with
    that tag), and nothing else but the \<open>name\<close> of the box;
  \<^item> when it fails, the exception is \<open>AttributeError\<close> only if \<open>filename\<close> or a
    \<open>name\<close> is missing, \<open>TypeError\<close> only if \<open>size\<close> or a \<open>bndbox\<close> is missing
    or such a child has no text, and otherwise the \<open>ValueError\<close> or \<open>OverflowError\<close>
    that the conversion of the text of such a child raises; it is never a
    \<open>ParseError\<close>.  A missing \<open>filename\<close> gives \<open>AttributeError\<close>, and a missing
    \<open>size\<close>, with \<open>filename\<close> present, \<open>TypeError\<close>;
  \<^item> the conversion accepts \<open>1621.0\<close> and gives 1621, and raises \<open>TypeError\<close> on an
    element without text.
\<close>

theorem parse_anno_numeric_fields:
  assumes "etree fs path_anno = Inr tree"
  shows "((\<exists>a. parse_anno fs path_anno = Inr a) \<longleftrightarrow>
       find_child ''filename'' tree \<noteq> None \<and> find_child ''size'' tree \<noteq> None \<and>
       (\<forall>obj \<in> set (findall ''object'' tree).
          find_child ''name'' obj \<noteq> None \<and> find_child ''bndbox'' obj \<noteq> None) \<and>
       (\<forall>c \<in> set (numeric_fields tree). int_of_text (etext c) \<noteq> None)) \<and>
    (\<forall>a. parse_anno fs path_anno = Inr a \<longrightarrow>
       (\<exists>size_el. find_child ''size'' tree = Some size_el \<and>
            list_all2 conv_entry (raw_items [] (children size_el)) (size_dict a) \<and>
            (\<forall>k. map_of (size_dict a) k = stored (children size_el) [] k)) \<and>
       list_all2 (\<lambda>obj d. \<exists>n bbox.
            find_child ''name'' obj = Some n \<and> find_child ''bndbox'' obj = Some bbox \<and>
            (\<forall>k. map_of d k = stored (children bbox) [(''name'', text_val (etext n))] k))
         (findall ''object'' tree) (object a)) \<and>
    (\<forall>e. parse_anno fs path_anno = Inl e \<longrightarrow>
       (e = AttributeError \<and>
          (find_child ''filename'' tree = None \<or>
           (\<exists>obj \<in> set (findall ''object'' tree). find_child ''name'' obj = None))) \<or>
       (e = TypeError \<and>
          (find_child ''size'' tree = None \<or>
           (\<exists>obj \<in> set (findall ''object'' tree). find_child ''bndbox'' obj = None) \<or>
           (\<exists>c \<in> set (numeric_fields tree). etext c = None))) \<or>
       (\<exists>c \<in> set (numeric_fields tree). \<exists>s. etext c = Some s \<and> int_float (Some s) = Inl e \<and>
          (e = ValueError \<or> e = OverflowError))) \<and>
    (find_child ''filename'' tree = None \<longrightarrow> parse_anno fs path_anno = Inl AttributeError) \<and>
    (find_child ''filename'' tree \<noteq> None \<and> find_child ''size'' tree = None \<longrightarrow>
       parse_anno fs path_anno = Inl TypeError) \<and>
    int_float (Some ''1621.0'') = Inr 1621 \<and> int_float None = Inl TypeError"
proof -
  have a: "find_child ''filename'' tree = None \<longrightarrow> parse_anno fs path_anno = Inl AttributeError"
    using assms by (simp add: parse_anno_def)
  have b: "find_child ''filename'' tree \<noteq> None \<and> find_child ''size'' tree = None \<longrightarrow>
       parse_anno fs path_anno = Inl TypeError"
    using assms by (auto simp: parse_anno_def)
  show ?thesis
    by (intro conjI)
      (rule parse_anno_ok_iff [OF assms],
        (intro allI impI, rule parse_anno_values [OF assms], assumption),
        (intro allI impI, rule parse_anno_cause [OF assms], assumption),
        fact a, fact b, fact int_float_1621, fact int_float_None)
qed

lemma float_etree: "etree odd_fs ''float.xml'' = Inr float_xml"
  by code_simp

text \<open>
  The annotation \<open>float.xml\<close>, whose width is \<open>1621.0\<close> and whose box has the
  coordinates \<open>904.7\<close>, \<open>674\<close> between spaces, \<open>926.0\<close> and \<open>6.95e2\<close>: the parser
  returns the width 1621 and the coordinates 904, 674, 926 and 695.
\<close>

theorem parse_anno_numeric_fields_witness:
  "parse_anno odd_fs ''float.xml'' = Inr float_anno \<and>
   (\<exists>size_el. find_child ''size'' float_xml = Some size_el \<and>
        list_all2 conv_entry (raw_items [] (children size_el)) (size_dict float_anno) \<and>
        (\<forall>k. map_of (size_dict float_anno) k = stored (children size_el) [] k)) \<and>
   list_all2 (\<lambda>obj d. \<exists>n bbox.
        find_child ''name'' obj = Some n \<and> find_child ''bndbox'' obj = Some bbox \<and>
        (\<forall>k. map_of d k = stored (children bbox) [(''name'', text_val (etext n))] k))
     (findall ''object'' float_xml) (object float_anno)"
proof -
  have p: "parse_anno odd_fs ''float.xml'' = Inr float_anno" by code_simp
  from parse_anno_numeric_fields [OF float_etree] p show ?thesis by blast
qed

text \<open>
  The claim as stated fails: on \<open>wide.xml\<close>, whose width is not numeric, the parser raises
  \<open>ValueError\<close>, on \<open>empty.xml\<close>, whose width has no text, \<open>TypeError\<close>, and on
  \<open>nowidth.xml\<close>, which has no width, it raises nothing and returns a \<open>size\<close>
  dictionary without \<open>width\<close>.
\<close>

theorem parse_anno_no_parse_error_counterexample:
  "parse_anno odd_fs ''wide.xml'' = Inl ValueError \<and>
   parse_anno odd_fs ''empty.xml'' = Inl TypeError \<and>
   parse_anno odd_fs ''nowidth.xml'' = Inr nowidth_anno \<and>
   map_of (size_dict nowidth_anno) ''width'' = None"
  by code_simp

end
